theory Spec2Isabelle
  imports
    Main
    "HOL-Library.Char_ord"
    "HOL-Library.List_Lexorder"
    "HOL-Library.Product_Lexorder"
    "HOL-Library.Sublist"
    "HOL-Library.AList"
begin

section \<open>Errors raised by the generator\<close>

text \<open>
  Every \<^verbatim>\<open>raise\<close> of \<^verbatim>\<open>glibc_version_header_gen.py\<close>, and every exception
  a library call of it can throw on the paths modelled here, is a value of this type:
  \<^item> \<open>InvalidVersion args\<close>: \<^verbatim>\<open>Exception("invalid version: " + str(args))\<close> of
    \<^verbatim>\<open>Version.__init__\<close>;
  \<^item> \<open>ValueError\<close>: the tuple unpacking \<^verbatim>\<open>symb, ver = line.split("@@")\<close> when the
    split does not give two parts;
  \<^item> \<open>CalledProcessError cmd\<close>: a \<^verbatim>\<open>subprocess.check_output\<close> or
    \<^verbatim>\<open>check_call\<close> whose command \<open>cmd\<close> fails;
  \<^item> \<open>DuplicateSymbols dupes\<close>:
    \<^verbatim>\<open>Exception("duplicate incompatible symbol versions found: " + str(dupes))\<close>;
  \<^item> \<open>KeyError\<close>: a dictionary subscript with an absent key.
\<close>

datatype error =
    InvalidVersion "int list"
  | ValueError
  | CalledProcessError string
  | DuplicateSymbols "string list"
  | KeyError

section \<open>Strings: \<^verbatim>\<open>str.split\<close>, \<^verbatim>\<open>str.join\<close>, \<^verbatim>\<open>str.startswith\<close>, \<^verbatim>\<open>str(int)\<close>\<close>

text \<open>
  \<^verbatim>\<open>s.split(sep)\<close> for a non-empty separator: the string is scanned from the left, cut
  at each occurrence of \<open>sep\<close>, and the scan continues behind the occurrence. The result
  is never empty. (Python raises on an empty separator; every call of the source passes
  a literal, \<^verbatim>\<open>"@@"\<close> or \<^verbatim>\<open>"/"\<close>. With an empty separator this function cuts nowhere.)
\<close>

function split_str :: "string \<Rightarrow> string \<Rightarrow> string list" where
  "split_str sep [] = [[]]"
| "split_str sep (c # cs) =
     (if sep \<noteq> [] \<and> prefix sep (c # cs)
      then [] # split_str sep (drop (length sep) (c # cs))
      else (let r = split_str sep cs in (c # hd r) # tl r))"
  by pat_completeness auto
termination
  by (relation "measure (\<lambda>(sep, s). length s)") auto

text \<open>\<^verbatim>\<open>sep.join(strings)\<close>.\<close>

fun join :: "string \<Rightarrow> string list \<Rightarrow> string" where
  "join sep [] = []"
| "join sep [x] = x"
| "join sep (x # y # zs) = x @ sep @ join sep (y # zs)"

text \<open>\<^verbatim>\<open>str(n)\<close> for an integer: the decimal digits, with a minus sign when negative.\<close>

fun str_nat :: "nat \<Rightarrow> string" where
  "str_nat n = (if n < 10 then [char_of (48 + n)] else str_nat (n div 10) @ [char_of (48 + n mod 10)])"

definition str_int :: "int \<Rightarrow> string" where
  "str_int i = (if i < 0 then ''-'' @ str_nat (nat (- i)) else str_nat (nat i))"

section \<open>The class \<^verbatim>\<open>Version\<close>\<close>

record version =
  major :: int
  minor :: int
  patch :: int

text \<open>
  \<^verbatim>\<open>Version.__init__(self, *args)\<close>: two or three arguments, anything else raises; the
  patch level is 0 when only two are given. The arguments are integers here
  (\<^verbatim>\<open>int(x)\<close> of an integer is the integer).
\<close>

definition Version :: "int list \<Rightarrow> error + version" where
  "Version args =
     (if length args > 3 \<or> length args < 2 then Inl (InvalidVersion args)
      else Inr \<lparr>major = args ! 0, minor = args ! 1,
                patch = (if length args = 3 then args ! 2 else 0)\<rparr>)"

text \<open>The two call forms the source uses for its constants: \<^verbatim>\<open>Version(a, b)\<close> and
  \<^verbatim>\<open>Version(a, b, c)\<close>.\<close>

definition Version2 :: "int \<Rightarrow> int \<Rightarrow> version" where
  "Version2 a b = \<lparr>major = a, minor = b, patch = 0\<rparr>"

definition Version3 :: "int \<Rightarrow> int \<Rightarrow> int \<Rightarrow> version" where
  "Version3 a b c = \<lparr>major = a, minor = b, patch = c\<rparr>"

text \<open>The comparison methods compare the tuples \<^verbatim>\<open>(major, minor, patch)\<close>; Python
  compares tuples lexicographically, as the order on products does here.\<close>

definition version_lt :: "version \<Rightarrow> version \<Rightarrow> bool" where
  "version_lt self other = ((major self, minor self, patch self) < (major other, minor other, patch other))"

definition version_le :: "version \<Rightarrow> version \<Rightarrow> bool" where
  "version_le self other = ((major self, minor self, patch self) \<le> (major other, minor other, patch other))"

definition version_gt :: "version \<Rightarrow> version \<Rightarrow> bool" where
  "version_gt self other = ((major self, minor self, patch self) > (major other, minor other, patch other))"

definition version_ge :: "version \<Rightarrow> version \<Rightarrow> bool" where
  "version_ge self other = ((major self, minor self, patch self) \<ge> (major other, minor other, patch other))"

definition version_eq :: "version \<Rightarrow> version \<Rightarrow> bool" where
  "version_eq self other = ((major self, minor self, patch self) = (major other, minor other, patch other))"

definition version_ne :: "version \<Rightarrow> version \<Rightarrow> bool" where
  "version_ne self other = ((major self, minor self, patch self) \<noteq> (major other, minor other, patch other))"


definition version_as_str :: "version \<Rightarrow> string" where
  "version_as_str self =
     (let s = str_int (major self) @ ''.'' @ str_int (minor self)
      in if patch self \<noteq> 0 then s @ ''.'' @ str_int (patch self) else s)"

definition version_str :: "version \<Rightarrow> string" where
  "version_str self = ''glibc-'' @ version_as_str self"

text \<open>The chained comparison \<^verbatim>\<open>lo <= version <= hi\<close> of the source.\<close>

definition in_window :: "version \<Rightarrow> version \<Rightarrow> version \<Rightarrow> bool" where
  "in_window lo version hi = (version_le lo version \<and> version_le version hi)"

section \<open>\<^verbatim>\<open>apply_patches\<close>\<close>

text \<open>The dictionary literal \<^verbatim>\<open>patches_table\<close>, in its order.\<close>

definition patches_table :: "(string \<times> version \<times> version) list" where
  "patches_table =
     [(''extern_inline_addition.diff'',      (Version2 2 5,  Version3 2 5 1)),
      (''fix_obstack_compat.diff'',          (Version2 2 5,  Version2 2 17)),
      (''no-pattern-rule-mixing.diff'',      (Version2 2 5,  Version3 2 10 2)),
      (''fix_linker_failure.diff'',          (Version2 2 5,  Version2 2 9)),
      (''remove_ctors_dtors.diff'',          (Version2 2 5,  Version3 2 12 2)),
      (''fix_bad_version_checks_2.5.diff'',  (Version2 2 5,  Version3 2 6 1)),
      (''fix_bad_version_checks_2.9.diff'',  (Version2 2 7,  Version2 2 9)),
      (''fix_bad_version_checks_2.10.diff'', (Version2 2 10, Version3 2 12 2)),
      (''fix_bad_version_checks.diff'',      (Version2 2 13, Version2 2 18)),
      (''hvsep-remove.diff'',                (Version2 2 16, Version2 2 16)),
      (''cvs-common-symbols.diff'',          (Version2 2 23, Version2 2 25))]"

text \<open>
  The loop of \<^verbatim>\<open>apply_patches\<close> over a table. \<open>git_apply path\<close> is the outcome of
  \<^verbatim>\<open>subprocess.check_call(["git", "apply", path], cwd=glibcDir)\<close>: \<open>True\<close> when the
  command succeeds; a failure raises and ends the loop. The state is the list of
  patch paths applied so far.
\<close>

fun apply_patches_loop ::
  "(string \<Rightarrow> bool) \<Rightarrow> string \<Rightarrow> version \<Rightarrow> (string \<times> version \<times> version) list \<Rightarrow> string list
    \<Rightarrow> error + string list" where
  "apply_patches_loop git_apply basePath version [] applied = Inr applied"
| "apply_patches_loop git_apply basePath version ((p, v_limits) # rest) applied =
     (if in_window (fst v_limits) version (snd v_limits)
      then (let patch_path = basePath @ ''/patches/'' @ p
            in if git_apply patch_path
               then apply_patches_loop git_apply basePath version rest (applied @ [patch_path])
               else Inl (CalledProcessError patch_path))
      else apply_patches_loop git_apply basePath version rest applied)"

definition apply_patches :: "(string \<Rightarrow> bool) \<Rightarrow> string \<Rightarrow> version \<Rightarrow> error + string list" where
  "apply_patches git_apply basePath version =
     apply_patches_loop git_apply basePath version patches_table []"

section \<open>\<^verbatim>\<open>extract_versions_from_installed_folder\<close>\<close>

text \<open>A dictionary from strings to strings, in insertion order; its keys are distinct.\<close>

type_synonym symtab = "(string \<times> string) list"

fun starts_with_any :: "string \<Rightarrow> string list \<Rightarrow> bool" where
  "starts_with_any str [] = False"
| "starts_with_any str (item # items) = (if prefix item str then True else starts_with_any str items)"

definition linker_scripts :: "string list" where
  "linker_scripts = [''libc.so'', ''libm.so'', ''libpthread.so'']"

definition librt_clock_funcs :: "string list" where
  "librt_clock_funcs =
     [''clock_getcpuclockid'', ''clock_nanosleep'', ''clock_getres'', ''clock_settime'', ''clock_gettime'']"

text \<open>\<^verbatim>\<open>f.split("/")[-1]\<close>.\<close>

definition file_name :: "string \<Rightarrow> string" where
  "file_name f = last (split_str ''/'' f)"

text \<open>
  The first loop, over the files that \<^verbatim>\<open>find\<close> listed. \<open>readelf f\<close> is the outcome of
  the \<^verbatim>\<open>readelf | grep\<close> pipeline on the file \<open>f\<close>, already split into its lines:
  \<open>None\<close> when the pipeline fails (\<^verbatim>\<open>check_output\<close> raises \<^verbatim>\<open>CalledProcessError\<close> for
  the command), the lines otherwise.
\<close>

definition readelf_command :: "string \<Rightarrow> string" where
  "readelf_command f =
     ''set -o pipefail; readelf -Ws '' @ [CHR 0x27] @ f @ [CHR 0x27] @
     '' | grep \" [^ ]*@@GLIBC_[0-9.]*$\" -o''"

fun collect_data ::
  "(string \<Rightarrow> string list option) \<Rightarrow> version \<Rightarrow> string list \<Rightarrow> string list \<Rightarrow> error + string list" where
  "collect_data readelf version [] data = Inr data"
| "collect_data readelf version (f # files) data =
     (if file_name f \<in> set linker_scripts then collect_data readelf version files data
      else (case readelf f of
              None \<Rightarrow> Inl (CalledProcessError (readelf_command f))
            | Some file_data \<Rightarrow>
                collect_data readelf version files
                  (data @
                    (if in_window (Version2 2 17) version (Version2 2 27)
                     then (if prefix ''librt'' (file_name f)
                           then filter (\<lambda>x. \<not> starts_with_any x librt_clock_funcs) file_data
                           else file_data)
                     else file_data))))"

text \<open>The second loop: \<open>syms\<close> and \<open>dupes\<close> are the two accumulators of the source.\<close>

fun merge_lines :: "string list \<Rightarrow> symtab \<Rightarrow> string list \<Rightarrow> error + (symtab \<times> string list)" where
  "merge_lines [] syms dupes = Inr (syms, dupes)"
| "merge_lines (line # rest) syms dupes =
     (case split_str ''@@'' line of
        [symb, ver] \<Rightarrow>
          (case map_of syms symb of
             None \<Rightarrow> merge_lines rest (syms @ [(symb, ver)]) dupes
           | Some v \<Rightarrow>
               if v \<noteq> ver then merge_lines rest syms (dupes @ [line])
               else merge_lines rest syms dupes)
      | _ \<Rightarrow> Inl ValueError)"

definition symbols_of_data :: "string list \<Rightarrow> error + symtab" where
  "symbols_of_data data =
     (case merge_lines data [] [] of
        Inl e \<Rightarrow> Inl e
      | Inr (syms, dupes) \<Rightarrow> if dupes \<noteq> [] then Inl (DuplicateSymbols dupes) else Inr syms)"

definition extract_versions_from_installed_folder ::
  "(string \<Rightarrow> string list option) \<Rightarrow> string list \<Rightarrow> version \<Rightarrow> error + symtab" where
  "extract_versions_from_installed_folder readelf files version =
     (case collect_data readelf version files [] of
        Inl e \<Rightarrow> Inl e
      | Inr data \<Rightarrow> symbols_of_data data)"

section \<open>\<^verbatim>\<open>generate_header_string\<close>\<close>

definition pthread_funcs_in_libc_so :: "string list" where
  "pthread_funcs_in_libc_so =
     [''pthread_attr_destroy'',
      ''pthread_attr_init'',
      ''pthread_attr_getdetachstate'',
      ''pthread_attr_setdetachstate'',
      ''pthread_attr_getinheritsched'',
      ''pthread_attr_setinheritsched'',
      ''pthread_attr_getschedparam'',
      ''pthread_attr_setschedparam'',
      ''pthread_attr_getschedpolicy'',
      ''pthread_attr_setschedpolicy'',
      ''pthread_attr_getscope'',
      ''pthread_attr_setscope'',
      ''pthread_condattr_destroy'',
      ''pthread_condattr_init'',
      ''pthread_cond_broadcast'',
      ''pthread_cond_destroy'',
      ''pthread_cond_init'',
      ''pthread_cond_signalpthread_cond_wait'',
      ''pthread_cond_timedwait'',
      ''pthread_equal'',
      ''pthread_exit'',
      ''pthread_getschedparam'',
      ''pthread_setschedparam'',
      ''pthread_mutex_destroy'',
      ''pthread_mutex_init'',
      ''pthread_mutex_lock'',
      ''pthread_mutex_unlock'',
      ''pthread_self'',
      ''pthread_setcancelstate'',
      ''pthread_setcanceltype'',
      ''pthread_attr_init'',
      ''__register_atfork'',
      ''pthread_cond_init pthread_cond_destroy'',
      ''pthread_cond_wait pthread_cond_signal'',
      ''pthread_cond_broadcast pthread_cond_timedwait'']"

definition pthread_symbols_used_as_weak_in_libgcc :: "string list" where
  "pthread_symbols_used_as_weak_in_libgcc =
     [''pthread_setspecific'',
      ''__pthread_key_create'',
      ''pthread_getspecific'',
      ''pthread_key_create'',
      ''pthread_once'']"

definition pthread_symbols_used_as_weak_in_libstdcpp :: "string list" where
  "pthread_symbols_used_as_weak_in_libstdcpp =
     [''pthread_setspecific'',
      ''pthread_key_delete'',
      ''__pthread_key_create'',
      ''pthread_once'',
      ''pthread_key_create'',
      ''pthread_getspecific'',
      ''pthread_join'',
      ''pthread_detach'',
      ''pthread_create'']"

definition symver_line :: "string \<Rightarrow> string \<Rightarrow> string" where
  "symver_line symb ver = ''__asm__(\".symver '' @ symb @ '','' @ symb @ ''@'' @ ver @ ''\");''"

definition poison_line :: "string \<Rightarrow> string" where
  "poison_line symb =
     ''__asm__(\".symver '' @ symb @ '','' @ symb @
     ''@GLIBC_WRAP_ERROR_SYMBOL_NOT_PRESENT_IN_REQUESTED_VERSION\");''"

text \<open>
  The three \<^verbatim>\<open>if\<close> statements that wrap a binding line, over the three membership
  sets (local variables of the source function, passed here as arguments).
\<close>

definition guard_line :: "string list \<Rightarrow> string list \<Rightarrow> string list \<Rightarrow> string \<Rightarrow> string \<Rightarrow> string" where
  "guard_line libc libgcc libstdcpp symb line0 =
     (let line1 = (if symb \<in> set libc \<or> symb \<in> set libstdcpp \<or> symb \<in> set libgcc
                   then ''#ifdef _REENTRANT\<newline>'' @ line0 @ ''\<newline>#endif'' else line0);
          line2 = (if symb \<in> set libgcc
                   then ''#ifndef IN_LIBGCC2\<newline>'' @ line1 @ ''\<newline>#endif'' else line1);
          line3 = (if symb \<in> set libstdcpp
                   then ''#ifndef _GLIBCXX_SHARED\<newline>'' @ line2 @ ''\<newline>#endif'' else line2)
      in line3)"

text \<open>
  The entry appended to \<^verbatim>\<open>strings\<close> for a key of the table. \<^verbatim>\<open>syms[symb]\<close> is read
  for keys of \<open>syms\<close> only, where it is defined.
\<close>

definition pinned_entry :: "symtab \<Rightarrow> string \<Rightarrow> string" where
  "pinned_entry syms symb =
     guard_line pthread_funcs_in_libc_so pthread_symbols_used_as_weak_in_libgcc
       pthread_symbols_used_as_weak_in_libstdcpp symb
       (symver_line symb (the (map_of syms symb)))"

definition header_strings :: "symtab \<Rightarrow> string set \<Rightarrow> string list" where
  "header_strings syms missingFuncs =
     [''#if !defined(SET_GLIBC_LINK_VERSIONS_HEADER) && !defined(__ASSEMBLER__)'',
      ''#define SET_GLIBC_LINK_VERSIONS_HEADER'']
     @ map (pinned_entry syms) (sort (map fst syms))
     @ map poison_line (sorted_list_of_set missingFuncs)
     @ [''#endif'', '''']"

definition generate_header_string :: "symtab \<Rightarrow> string set \<Rightarrow> string" where
  "generate_header_string syms missingFuncs = join ''\<newline>'' (header_strings syms missingFuncs)"

section \<open>\<^verbatim>\<open>main\<close>: the union of all tables and the header of each version\<close>

text \<open>\<^verbatim>\<open>set.union(set(), *syms.values())\<close>: iterating a dictionary yields its keys.\<close>

definition allsyms_of :: "('v \<times> symtab) list \<Rightarrow> string set" where
  "allsyms_of syms = foldl (\<union>) {} (map (\<lambda>t. set (map fst t)) (map snd syms))"

text \<open>
  The first loop of \<^verbatim>\<open>main\<close>. \<open>extract version\<close> is
  \<^verbatim>\<open>extract_versions_from_installed_folder(get_glibc_binaries(version), version)\<close>;
  \<^verbatim>\<open>syms[version] = ...\<close> replaces the entry of an equal version.
\<close>

fun extract_all ::
  "(version \<Rightarrow> error + symtab) \<Rightarrow> version list \<Rightarrow> (version \<times> symtab) list
    \<Rightarrow> error + (version \<times> symtab) list" where
  "extract_all extract [] syms = Inr syms"
| "extract_all extract (version # rest) syms =
     (case extract version of
        Inl e \<Rightarrow> Inl e
      | Inr t \<Rightarrow> extract_all extract rest (AList.update version t syms))"

text \<open>
  The second loop of \<^verbatim>\<open>main\<close>: the files written, in order, as pairs of a file name
  (under \<^verbatim>\<open>version_headers/\<close>) and its contents. \<open>allsyms\<close> is computed once, before
  the loop; \<open>missing_funcs allsyms t\<close> is \<^verbatim>\<open>allsyms - set(syms[version].keys())\<close>.
\<close>

definition missing_funcs :: "string set \<Rightarrow> symtab \<Rightarrow> string set" where
  "missing_funcs allsyms t = allsyms - set (map fst t)"

fun write_headers ::
  "string set \<Rightarrow> (version \<times> symtab) list \<Rightarrow> version list \<Rightarrow> error + (string \<times> string) list" where
  "write_headers allsyms syms [] = Inr []"
| "write_headers allsyms syms (version # rest) =
     (case map_of syms version of
        None \<Rightarrow> Inl KeyError
      | Some t \<Rightarrow>
          (let missingFuncs = missing_funcs allsyms t;
               headerData = generate_header_string t missingFuncs
           in case write_headers allsyms syms rest of
                Inl e \<Rightarrow> Inl e
              | Inr written \<Rightarrow>
                  Inr ((''/force_link_glibc_'' @ version_as_str version @ ''.h'', headerData) # written)))"

definition main :: "(version \<Rightarrow> error + symtab) \<Rightarrow> version list \<Rightarrow> error + (string \<times> string) list" where
  "main extract requested_versions =
     (case extract_all extract requested_versions [] of
        Inl e \<Rightarrow> Inl e
      | Inr syms \<Rightarrow> write_headers (allsyms_of syms) syms requested_versions)"

definition SUPPORTED_VERSIONS :: "version list" where
  "SUPPORTED_VERSIONS =
     [Version2 2 5, Version3 2 5 1, Version2 2 6, Version3 2 6 1, Version2 2 7, Version2 2 8,
      Version2 2 9, Version3 2 10 2, Version3 2 11 3, Version3 2 12 2, Version2 2 13,
      Version2 2 14, Version3 2 14 1, Version2 2 15, Version2 2 16, Version2 2 17,
      Version2 2 18, Version2 2 19, Version2 2 20, Version2 2 21, Version2 2 22,
      Version2 2 23, Version2 2 24, Version2 2 25, Version2 2 26, Version2 2 27]"

section \<open>Characterisations used in the statements\<close>

text \<open>
  The guard lines around the binding of a symbol, outermost first, as the
  specification lists them: the guard of the C++ runtime for a member of its weak-use
  set, the guard of libgcc for a member of its weak-use set, and the multithreading
  guard for a member of any of the three sets.
\<close>

definition guards_for :: "string list \<Rightarrow> string list \<Rightarrow> string list \<Rightarrow> string \<Rightarrow> string list" where
  "guards_for libc libgcc libstdcpp symb =
     (if symb \<in> set libstdcpp then [''#ifndef _GLIBCXX_SHARED''] else [])
     @ (if symb \<in> set libgcc then [''#ifndef IN_LIBGCC2''] else [])
     @ (if symb \<in> set libc \<or> symb \<in> set libgcc \<or> symb \<in> set libstdcpp
        then [''#ifdef _REENTRANT''] else [])"

text \<open>
  An export line as the merge loop reads it: the name and the version when
  \<^verbatim>\<open>line.split("@@")\<close> has exactly two parts, nothing otherwise.
\<close>

definition parse_line :: "string \<Rightarrow> (string \<times> string) option" where
  "parse_line line = (case split_str ''@@'' line of [symb, ver] \<Rightarrow> Some (symb, ver) | _ \<Rightarrow> None)"

text \<open>The version of the first line of \<open>data\<close> that exports a name.\<close>

definition first_version :: "string list \<Rightarrow> string \<Rightarrow> string option" where
  "first_version data = map_of (List.map_filter parse_line data)"

text \<open>
  The lines of \<open>data\<close> whose version differs from the version of the first line that
  exports the same name, in the order of \<open>data\<close>.
\<close>

definition differs_from :: "(string \<rightharpoonup> string) \<Rightarrow> string \<Rightarrow> bool" where
  "differs_from binding line =
     (case parse_line line of
        None \<Rightarrow> False
      | Some (symb, ver) \<Rightarrow> binding symb \<noteq> Some ver)"

definition conflicting_lines :: "string list \<Rightarrow> string list" where
  "conflicting_lines data = filter (differs_from (first_version data)) data"

text \<open>
  The exclusion rule of the librt clock functions: it applies to a line of the file \<open>f\<close>
  for the target \<open>version\<close>.
\<close>

definition excluded :: "version \<Rightarrow> string \<Rightarrow> string \<Rightarrow> bool" where
  "excluded version f line =
     (in_window (Version2 2 17) version (Version2 2 27)
      \<and> prefix ''librt'' (file_name f)
      \<and> starts_with_any line librt_clock_funcs)"

text \<open>The lines of all files that reach the merge loop, when every \<^verbatim>\<open>readelf\<close> succeeds.\<close>

definition surviving_lines :: "(string \<Rightarrow> string list option) \<Rightarrow> version \<Rightarrow> string list \<Rightarrow> string list" where
  "surviving_lines readelf version files =
     concat (map (\<lambda>f. case readelf f of
                         None \<Rightarrow> []
                       | Some file_data \<Rightarrow> filter (\<lambda>line. \<not> excluded version f line) file_data)
                 (filter (\<lambda>f. file_name f \<notin> set linker_scripts) files))"

text \<open>
  The binding lines of a name in a header text: the lines of the text that start with
  \<^verbatim>\<open>__asm__(".symver name,name@\<close>.
\<close>

definition binding_prefix :: "string \<Rightarrow> string" where
  "binding_prefix symb = ''__asm__(\".symver '' @ symb @ '','' @ symb @ ''@''"

definition binding_lines :: "string \<Rightarrow> string \<Rightarrow> string list" where
  "binding_lines symb header =
     filter (prefix (binding_prefix symb)) (split_str ''\<newline>'' header)"

text \<open>
  Names and versions as \<^verbatim>\<open>readelf\<close> prints them: a name holds no comma and no line
  break, a version no line break.
\<close>

definition clean_name :: "string \<Rightarrow> bool" where
  "clean_name s = (CHR '','' \<notin> set s \<and> CHR ''\<newline>'' \<notin> set s)"

definition clean_table :: "symtab \<Rightarrow> bool" where
  "clean_table t = list_all (\<lambda>(s, v). clean_name s \<and> CHR ''\<newline>'' \<notin> set v) t"

section \<open>Properties of \<^verbatim>\<open>Version\<close>\<close>

lemma Version_two: "Version [a, b] = Inr (Version2 a b)"
  by (simp add: Version_def Version2_def)

lemma Version_three: "Version [a, b, c] = Inr (Version3 a b c)"
  by (simp add: Version_def Version3_def)

lemma Version_arity: "(\<exists>v. Version args = Inr v) \<longleftrightarrow> length args = 2 \<or> length args = 3"
  by (auto simp: Version_def)

lemmas version_cmp_defs =
  version_lt_def version_le_def version_gt_def version_ge_def version_eq_def version_ne_def








section \<open>Version windows and \<^verbatim>\<open>apply_patches\<close>\<close>

lemma apply_patches_loop_Inr:
  "apply_patches_loop git_apply basePath version table applied = Inr result \<Longrightarrow>
   result = applied @ map (\<lambda>pw. basePath @ ''/patches/'' @ fst pw)
              (filter (\<lambda>pw. in_window (fst (snd pw)) version (snd (snd pw))) table)"
proof (induction table arbitrary: applied)
  case Nil
  then show ?case by simp
next
  case (Cons pw table)
  obtain p w where pw: "pw = (p, w)" by (cases pw)
  show ?case
  proof (cases "in_window (fst w) version (snd w)")
    case True
    with Cons.prems pw have
      "apply_patches_loop git_apply basePath version table (applied @ [basePath @ ''/patches/'' @ p])
         = Inr result"
      by (simp add: Let_def split: if_splits)
    from Cons.IH[OF this] show ?thesis using True pw by simp
  next
    case False
    with Cons.prems pw have "apply_patches_loop git_apply basePath version table applied = Inr result"
      by simp
    from Cons.IH[OF this] show ?thesis using False pw by simp
  qed
qed

lemma apply_patches_loop_total:
  "(\<forall>pw \<in> set table. in_window (fst (snd pw)) version (snd (snd pw))
        \<longrightarrow> git_apply (basePath @ ''/patches/'' @ fst pw)) \<Longrightarrow>
   \<exists>result. apply_patches_loop git_apply basePath version table applied = Inr result"
proof (induction table arbitrary: applied)
  case Nil
  then show ?case by simp
next
  case (Cons pw table)
  obtain p w where pw: "pw = (p, w)" by (cases pw)
  show ?case using Cons.prems Cons.IH unfolding pw
    by (auto simp: Let_def)
qed

text \<open>
  Claim C7. A version window contains a version exactly when \<open>low \<le> v \<le> high\<close>, both
  ends included: a version equal to either end is inside, a version above the upper end
  (2.10 against 2.5 to 2.9) or below the lower end is outside. \<^verbatim>\<open>apply_patches\<close>, when
  it returns, has applied every patch of the table whose window contains the version
  (all of them, in the order of the table) and no other; it returns whenever \<^verbatim>\<open>git apply\<close>
  succeeds on each of these patches.
\<close>

theorem window_selects_all_matching_rules:
  "(in_window lo v hi \<longleftrightarrow> version_le lo v \<and> version_le v hi)
   \<and> (in_window lo v hi \<longleftrightarrow> \<not> version_lt v lo \<and> \<not> version_gt v hi)
   \<and> (version_le lo hi \<longrightarrow> in_window lo lo hi \<and> in_window lo hi hi)
   \<and> (version_gt v hi \<longrightarrow> \<not> in_window lo v hi)
   \<and> (version_lt v lo \<longrightarrow> \<not> in_window lo v hi)
   \<and> in_window (Version2 2 5) (Version2 2 7) (Version2 2 9)
   \<and> in_window (Version2 2 5) (Version2 2 5) (Version2 2 9)
   \<and> in_window (Version2 2 5) (Version2 2 9) (Version2 2 9)
   \<and> \<not> in_window (Version2 2 5) (Version2 2 10) (Version2 2 9)
   \<and> (apply_patches git_apply basePath version = Inr applied \<longrightarrow>
        applied = map (\<lambda>pw. basePath @ ''/patches/'' @ fst pw)
                    (filter (\<lambda>pw. in_window (fst (snd pw)) version (snd (snd pw))) patches_table))
   \<and> ((\<forall>pw \<in> set patches_table. in_window (fst (snd pw)) version (snd (snd pw))
          \<longrightarrow> git_apply (basePath @ ''/patches/'' @ fst pw))
        \<longrightarrow> (\<exists>result. apply_patches git_apply basePath version = Inr result))"
proof (intro conjI)
  show "in_window lo v hi \<longleftrightarrow> version_le lo v \<and> version_le v hi"
    by (simp add: in_window_def)
  show "in_window lo v hi \<longleftrightarrow> \<not> version_lt v lo \<and> \<not> version_gt v hi"
    by (auto simp: in_window_def version_cmp_defs not_less)
  show "version_le lo hi \<longrightarrow> in_window lo lo hi \<and> in_window lo hi hi"
    by (simp add: in_window_def version_le_def)
  show "version_gt v hi \<longrightarrow> \<not> in_window lo v hi"
    by (auto simp: in_window_def version_cmp_defs)
  show "version_lt v lo \<longrightarrow> \<not> in_window lo v hi"
    by (auto simp: in_window_def version_cmp_defs)
  show "in_window (Version2 2 5) (Version2 2 7) (Version2 2 9)"
    by (simp add: in_window_def version_le_def Version2_def)
  show "in_window (Version2 2 5) (Version2 2 5) (Version2 2 9)"
    by (simp add: in_window_def version_le_def Version2_def)
  show "in_window (Version2 2 5) (Version2 2 9) (Version2 2 9)"
    by (simp add: in_window_def version_le_def Version2_def)
  show "\<not> in_window (Version2 2 5) (Version2 2 10) (Version2 2 9)"
    by (simp add: in_window_def version_le_def Version2_def)
  show "apply_patches git_apply basePath version = Inr applied \<longrightarrow>
        applied = map (\<lambda>pw. basePath @ ''/patches/'' @ fst pw)
                    (filter (\<lambda>pw. in_window (fst (snd pw)) version (snd (snd pw))) patches_table)"
    unfolding apply_patches_def using apply_patches_loop_Inr [where applied = "[]"] by fastforce
  show "(\<forall>pw \<in> set patches_table. in_window (fst (snd pw)) version (snd (snd pw))
          \<longrightarrow> git_apply (basePath @ ''/patches/'' @ fst pw))
        \<longrightarrow> (\<exists>result. apply_patches git_apply basePath version = Inr result)"
    unfolding apply_patches_def using apply_patches_loop_total by blast
qed

theorem window_selects_all_matching_rules_witness:
  "version_le (Version2 2 5) (Version2 2 9)
   \<and> in_window (Version2 2 5) (Version2 2 5) (Version2 2 9)
   \<and> in_window (Version2 2 5) (Version2 2 9) (Version2 2 9)
   \<and> version_gt (Version3 2 9 1) (Version2 2 9)
   \<and> \<not> in_window (Version2 2 5) (Version3 2 9 1) (Version2 2 9)
   \<and> apply_patches (\<lambda>path. True) ''/gen'' (Version2 2 7) =
       Inr [''/gen/patches/fix_obstack_compat.diff'',
            ''/gen/patches/no-pattern-rule-mixing.diff'',
            ''/gen/patches/fix_linker_failure.diff'',
            ''/gen/patches/remove_ctors_dtors.diff'',
            ''/gen/patches/fix_bad_version_checks_2.9.diff'']"
  using window_selects_all_matching_rules [of "Version2 2 5" "Version2 2 5" "Version2 2 9"
      "\<lambda>path. True" "''/gen''" "Version2 2 7"]
    window_selects_all_matching_rules [of "Version2 2 5" "Version3 2 9 1" "Version2 2 9"
      "\<lambda>path. True" "''/gen''" "Version2 2 7"]
  by (simp add: apply_patches_def patches_table_def in_window_def version_cmp_defs
      Version2_def Version3_def)

section \<open>The union of the tables and the missing sets\<close>

lemmas membership_sets_defs =
  pthread_funcs_in_libc_so_def pthread_symbols_used_as_weak_in_libgcc_def
  pthread_symbols_used_as_weak_in_libstdcpp_def

lemma foldl_union: "foldl (\<union>) A xs = A \<union> \<Union> (set xs)"
  by (induction xs arbitrary: A) auto

lemma allsyms_of_Union: "allsyms_of syms = (\<Union>t \<in> snd ` set syms. set (map fst t))"
  by (simp add: allsyms_of_def foldl_union image_image)

lemma finite_allsyms_of: "finite (allsyms_of syms)"
  by (simp add: allsyms_of_Union)

lemma write_headers_Inr:
  "write_headers A syms req = Inr written \<Longrightarrow>
   list_all2 (\<lambda>v (fname, content). \<exists>t. map_of syms v = Some t
        \<and> fname = ''/force_link_glibc_'' @ version_as_str v @ ''.h''
        \<and> content = generate_header_string t (missing_funcs A t)) req written"
proof (induction req arbitrary: written)
  case Nil
  then show ?case by simp
next
  case (Cons v req)
  then show ?case
    by (auto split: option.splits sum.splits simp: Let_def)
qed

lemma write_headers_total:
  "(\<forall>v \<in> set req. map_of syms v \<noteq> None) \<Longrightarrow> \<exists>written. write_headers A syms req = Inr written"
  by (induction req) (auto split: option.splits sum.splits simp: Let_def)

lemma extract_all_tables:
  assumes "\<forall>v \<in> set req. ex v = Inr (table v)"
  shows "\<exists>syms. extract_all ex req acc = Inr syms
           \<and> (\<forall>v. map_of syms v = (if v \<in> set req then Some (table v) else map_of acc v))
           \<and> (distinct (map fst acc) \<longrightarrow> distinct (map fst syms))"
  using assms
proof (induction req arbitrary: acc)
  case Nil
  then show ?case by simp
next
  case (Cons v req)
  from Cons.prems have v: "ex v = Inr (table v)" and r: "\<forall>u \<in> set req. ex u = Inr (table u)"
    by simp_all
  from Cons.IH[OF r, of "AList.update v (table v) acc"]
  obtain syms where s: "extract_all ex req (AList.update v (table v) acc) = Inr syms"
    and m: "\<forall>u. map_of syms u
              = (if u \<in> set req then Some (table u) else map_of (AList.update v (table v) acc) u)"
    and d: "distinct (map fst (AList.update v (table v) acc)) \<longrightarrow> distinct (map fst syms)"
    by blast
  have "extract_all ex (v # req) acc = Inr syms"
    using v s by simp
  moreover have "\<forall>u. map_of syms u = (if u \<in> set (v # req) then Some (table u) else map_of acc u)"
    using m by (simp add: update_conv')
  moreover have "distinct (map fst acc) \<longrightarrow> distinct (map fst syms)"
    using d by (simp add: distinct_update)
  ultimately show ?case by blast
qed

lemma write_headers_tables:
  assumes "\<forall>v \<in> set req. map_of syms v = Some (table v)"
  shows "write_headers A syms req =
           Inr (map (\<lambda>v. (''/force_link_glibc_'' @ version_as_str v @ ''.h'',
                           generate_header_string (table v) (missing_funcs A (table v)))) req)"
  using assms by (induction req) (simp_all add: Let_def)

lemma allsyms_of_tables:
  assumes d: "distinct (map fst syms)"
    and m: "\<forall>v. map_of syms v = (if v \<in> set req then Some (table v) else None)"
  shows "allsyms_of syms = (\<Union>v \<in> set req. set (map fst (table v)))"
proof -
  have "snd ` set syms = table ` set req"
  proof (intro set_eqI iffI)
    fix t assume "t \<in> snd ` set syms"
    then obtain v where "(v, t) \<in> set syms" by force
    with d have "map_of syms v = Some t" by simp
    with m show "t \<in> table ` set req" by (auto split: if_splits)
  next
    fix t assume "t \<in> table ` set req"
    then obtain v where v: "v \<in> set req" and t: "t = table v" by blast
    from m v have "map_of syms v = Some (table v)" by simp
    then have "(v, table v) \<in> set syms" by (rule map_of_SomeD)
    then show "t \<in> snd ` set syms" unfolding t by force
  qed
  then show ?thesis by (simp add: allsyms_of_Union)
qed

lemma main_writes:
  assumes "\<forall>v \<in> set requested. extract v = Inr (table v)"
  shows "main extract requested =
           Inr (map (\<lambda>v. (''/force_link_glibc_'' @ version_as_str v @ ''.h'',
                  generate_header_string (table v)
                    ((\<Union>v' \<in> set requested. set (map fst (table v'))) - set (map fst (table v)))))
                requested)"
proof -
  from extract_all_tables[OF assms, of "[]"]
  obtain syms where s: "extract_all extract requested [] = Inr syms"
    and m: "\<forall>v. map_of syms v = (if v \<in> set requested then Some (table v) else None)"
    and d: "distinct (map fst syms)"
    by auto
  have a: "allsyms_of syms = (\<Union>v \<in> set requested. set (map fst (table v)))"
    by (rule allsyms_of_tables[OF d m])
  have w: "\<forall>v \<in> set requested. map_of syms v = Some (table v)"
    using m by simp
  show ?thesis
    unfolding main_def s sum.case write_headers_tables[OF w] a missing_funcs_def ..
qed

lemma main_fails:
  assumes "extract v = Inl e" "v \<in> set requested"
  shows "\<exists>e'. main extract requested = Inl e'"
proof -
  have "\<exists>e'. extract_all extract requested acc = Inl e'" for acc
    using assms(2)
  proof (induction requested arbitrary: acc)
    case Nil
    then show ?case by simp
  next
    case (Cons u req)
    then show ?case using assms(1) by (cases "extract u") auto
  qed
  then obtain e' where "extract_all extract requested [] = Inl e'" by blast
  then show ?thesis by (simp add: main_def)
qed

text \<open>
  Claim C4. \<^verbatim>\<open>main\<close> extracts one table per requested version, forms the union of the
  key sets of all these tables once, and writes for every requested version \<open>v\<close> the
  header of its table with the missing set \<open>union - keys (table v)\<close>: the same union for
  every version. The union \<^verbatim>\<open>allsyms\<close> of a dictionary of tables is the union of their
  key sets. For the tables \<open>A = {foo, bar}\<close> and \<open>B = {foo}\<close> the union is \<open>{foo, bar}\<close>,
  nothing is missing in \<open>A\<close> and \<open>bar\<close> is missing in \<open>B\<close>, and the header that
  \<^verbatim>\<open>main\<close> writes for \<open>B\<close> holds the poison binding of \<open>bar\<close>.
\<close>

theorem missing_is_union_minus_own_keys:
  "((\<forall>v \<in> set requested. extract v = Inr (table v)) \<longrightarrow>
      main extract requested =
        Inr (map (\<lambda>v. (''/force_link_glibc_'' @ version_as_str v @ ''.h'',
               generate_header_string (table v)
                 ((\<Union>v' \<in> set requested. set (map fst (table v'))) - set (map fst (table v)))))
             requested))
   \<and> allsyms_of syms = (\<Union>t' \<in> snd ` set syms. set (map fst t'))
   \<and> missing_funcs (allsyms_of syms) t = (\<Union>t' \<in> snd ` set syms. set (map fst t')) - set (map fst t)
   \<and> (write_headers (allsyms_of syms) syms requested = Inr written \<longrightarrow>
        list_all2 (\<lambda>v (fname, content). \<exists>t. map_of syms v = Some t
           \<and> content = generate_header_string t
                ((\<Union>t' \<in> snd ` set syms. set (map fst t')) - set (map fst t)))
          requested written)
   \<and> allsyms_of [(va, [(''foo'', x), (''bar'', y)]), (vb, [(''foo'', z)])] = {''foo'', ''bar''}
   \<and> missing_funcs (allsyms_of [(va, [(''foo'', x), (''bar'', y)]), (vb, [(''foo'', z)])])
        [(''foo'', x), (''bar'', y)] = {}
   \<and> missing_funcs (allsyms_of [(va, [(''foo'', x), (''bar'', y)]), (vb, [(''foo'', z)])])
        [(''foo'', z)] = {''bar''}
   \<and> main (\<lambda>v. if v = Version2 1 0 then Inr [(''foo'', ''GLIBC_1.0''), (''bar'', ''GLIBC_1.0'')]
                 else if v = Version2 2 0 then Inr [(''foo'', ''GLIBC_1.0'')]
                 else Inl (CalledProcessError ''readelf''))
        [Version2 1 0, Version2 2 0]
     = Inr [(''/force_link_glibc_1.0.h'',
             generate_header_string [(''foo'', ''GLIBC_1.0''), (''bar'', ''GLIBC_1.0'')] {}),
            (''/force_link_glibc_2.0.h'',
             generate_header_string [(''foo'', ''GLIBC_1.0'')] {''bar''})]
   \<and> generate_header_string [(''foo'', ''GLIBC_1.0'')] {''bar''} =
       ''#if !defined(SET_GLIBC_LINK_VERSIONS_HEADER) && !defined(__ASSEMBLER__)\<newline>'' @
       ''#define SET_GLIBC_LINK_VERSIONS_HEADER\<newline>'' @
       ''__asm__(\".symver foo,foo@GLIBC_1.0\");\<newline>'' @
       ''__asm__(\".symver bar,bar@GLIBC_WRAP_ERROR_SYMBOL_NOT_PRESENT_IN_REQUESTED_VERSION\");\<newline>'' @
       ''#endif\<newline>''"
proof (intro conjI)
  show "(\<forall>v \<in> set requested. extract v = Inr (table v)) \<longrightarrow>
      main extract requested =
        Inr (map (\<lambda>v. (''/force_link_glibc_'' @ version_as_str v @ ''.h'',
               generate_header_string (table v)
                 ((\<Union>v' \<in> set requested. set (map fst (table v'))) - set (map fst (table v)))))
             requested)"
    by (intro impI main_writes)
  show "allsyms_of syms = (\<Union>t' \<in> snd ` set syms. set (map fst t'))"
    by (rule allsyms_of_Union)
  show "missing_funcs (allsyms_of syms) t
          = (\<Union>t' \<in> snd ` set syms. set (map fst t')) - set (map fst t)"
    by (simp add: missing_funcs_def allsyms_of_Union)
  show "write_headers (allsyms_of syms) syms requested = Inr written \<longrightarrow>
        list_all2 (\<lambda>v (fname, content). \<exists>t. map_of syms v = Some t
           \<and> content = generate_header_string t
                ((\<Union>t' \<in> snd ` set syms. set (map fst t')) - set (map fst t)))
          requested written"
  proof
    assume "write_headers (allsyms_of syms) syms requested = Inr written"
    from write_headers_Inr[OF this] show "list_all2 (\<lambda>v (fname, content). \<exists>t. map_of syms v = Some t
           \<and> content = generate_header_string t
                ((\<Union>t' \<in> snd ` set syms. set (map fst t')) - set (map fst t)))
          requested written"
      by (rule list_all2_mono) (auto simp: missing_funcs_def allsyms_of_Union)
  qed
  show "allsyms_of [(va, [(''foo'', x), (''bar'', y)]), (vb, [(''foo'', z)])] = {''foo'', ''bar''}"
    by (simp add: allsyms_of_def)
  show "missing_funcs (allsyms_of [(va, [(''foo'', x), (''bar'', y)]), (vb, [(''foo'', z)])])
        [(''foo'', x), (''bar'', y)] = {}"
    by (simp add: allsyms_of_def missing_funcs_def)
  show "missing_funcs (allsyms_of [(va, [(''foo'', x), (''bar'', y)]), (vb, [(''foo'', z)])])
        [(''foo'', z)] = {''bar''}"
    by (auto simp: allsyms_of_def missing_funcs_def)
  show "main (\<lambda>v. if v = Version2 1 0 then Inr [(''foo'', ''GLIBC_1.0''), (''bar'', ''GLIBC_1.0'')]
                 else if v = Version2 2 0 then Inr [(''foo'', ''GLIBC_1.0'')]
                 else Inl (CalledProcessError ''readelf''))
        [Version2 1 0, Version2 2 0]
     = Inr [(''/force_link_glibc_1.0.h'',
             generate_header_string [(''foo'', ''GLIBC_1.0''), (''bar'', ''GLIBC_1.0'')] {}),
            (''/force_link_glibc_2.0.h'',
             generate_header_string [(''foo'', ''GLIBC_1.0'')] {''bar''})]"
  proof -
    let ?A = "[(''foo'', ''GLIBC_1.0''), (''bar'', ''GLIBC_1.0'')]"
    let ?B = "[(''foo'', ''GLIBC_1.0'')]"
    have ne: "Version2 1 0 \<noteq> Version2 2 0" "Version2 2 0 \<noteq> Version2 1 0"
      by (simp_all add: Version2_def)
    have a: "allsyms_of [(Version2 1 0, ?A), (Version2 2 0, ?B)] = {''foo'', ''bar''}"
      by (simp add: allsyms_of_def)
    have m1: "missing_funcs {''foo'', ''bar''} ?A = {}"
      by (simp add: missing_funcs_def)
    have m2: "missing_funcs {''foo'', ''bar''} ?B = {''bar''}"
      by (auto simp: missing_funcs_def)
    have s1: "version_as_str (Version2 1 0) = ''1.0''"
      by code_simp
    have s2: "version_as_str (Version2 2 0) = ''2.0''"
      by code_simp
    show ?thesis
      by (simp add: main_def ne AList.update.simps a m1 m2 s1 s2 Let_def)
  qed
  show "generate_header_string [(''foo'', ''GLIBC_1.0'')] {''bar''} =
       ''#if !defined(SET_GLIBC_LINK_VERSIONS_HEADER) && !defined(__ASSEMBLER__)\<newline>'' @
       ''#define SET_GLIBC_LINK_VERSIONS_HEADER\<newline>'' @
       ''__asm__(\".symver foo,foo@GLIBC_1.0\");\<newline>'' @
       ''__asm__(\".symver bar,bar@GLIBC_WRAP_ERROR_SYMBOL_NOT_PRESENT_IN_REQUESTED_VERSION\");\<newline>'' @
       ''#endif\<newline>''"
    by (simp add: generate_header_string_def header_strings_def pinned_entry_def guard_line_def
        symver_line_def poison_line_def membership_sets_defs)
qed

theorem missing_is_union_minus_own_keys_witness:
  "main (\<lambda>v. Inr (if v = Version2 1 0 then [(''foo'', ''GLIBC_1.0''), (''bar'', ''GLIBC_1.0'')]
                   else [(''foo'', ''GLIBC_1.0'')]))
        [Version2 1 0, Version2 2 0]
     = Inr [(''/force_link_glibc_1.0.h'',
             generate_header_string [(''foo'', ''GLIBC_1.0''), (''bar'', ''GLIBC_1.0'')] {}),
            (''/force_link_glibc_2.0.h'',
             generate_header_string [(''foo'', ''GLIBC_1.0'')] {''bar''})]"
proof -
  let ?A = "[(''foo'', ''GLIBC_1.0''), (''bar'', ''GLIBC_1.0'')]"
  let ?B = "[(''foo'', ''GLIBC_1.0'')]"
  let ?table = "\<lambda>v. if v = Version2 1 0 then ?A else ?B"
  let ?req = "[Version2 1 0, Version2 2 0]"
  have ne: "Version2 1 0 \<noteq> Version2 2 0" "Version2 2 0 \<noteq> Version2 1 0"
    by (simp_all add: Version2_def)
  have h: "\<forall>v \<in> set ?req. (\<lambda>v. Inr (?table v) :: error + symtab) v = Inr (?table v)"
    by simp
  have u: "(\<Union>v' \<in> set ?req. set (map fst (?table v'))) = {''foo'', ''bar''}"
    using ne by auto
  have m1: "{''foo'', ''bar''} - set (map fst ?A) = {}"
    by simp
  have m2: "{''foo'', ''bar''} - set (map fst ?B) = {''bar''}"
    by auto
  have s1: "version_as_str (Version2 1 0) = ''1.0''"
    by code_simp
  have s2: "version_as_str (Version2 2 0) = ''2.0''"
    by code_simp
  note w = missing_is_union_minus_own_keys
    [of ?req "\<lambda>v. Inr (?table v)" ?table "[]" "[]" "[]", THEN conjunct1, THEN mp, OF h]
  show ?thesis
    unfolding w u by (simp add: ne m1 m2 s1 s2)
qed

section \<open>The header of an empty table\<close>

text \<open>
  Claim C10. For an empty symbol table and an empty missing set the header is the two
  opening lines of the include guard, the closing \<^verbatim>\<open>#endif\<close> and a final newline, with no
  binding line.
\<close>

theorem empty_header:
  "generate_header_string [] {} =
     ''#if !defined(SET_GLIBC_LINK_VERSIONS_HEADER) && !defined(__ASSEMBLER__)\<newline>'' @
     ''#define SET_GLIBC_LINK_VERSIONS_HEADER\<newline>'' @
     ''#endif\<newline>''
   \<and> header_strings [] {} =
       [''#if !defined(SET_GLIBC_LINK_VERSIONS_HEADER) && !defined(__ASSEMBLER__)'',
        ''#define SET_GLIBC_LINK_VERSIONS_HEADER'', ''#endif'', '''']"
  by (simp add: generate_header_string_def header_strings_def)

section \<open>Guards around a binding line: \<^verbatim>\<open>guard_line\<close> as a join\<close>

lemma guard_line_join:
  "guard_line libc libgcc libstdcpp symb line0 =
     join ''\<newline>'' (guards_for libc libgcc libstdcpp symb @ [line0]
        @ replicate (length (guards_for libc libgcc libstdcpp symb)) ''#endif'')"
  by (simp add: guard_line_def guards_for_def Let_def)

section \<open>Determinism of the header\<close>

lemma sort_keys_cong:
  assumes "distinct (map fst (s1 :: ('a::linorder \<times> 'b) list))" "distinct (map fst s2)"
    and "map_of s1 = map_of s2"
  shows "sort (map fst s1) = sort (map fst s2)"
proof -
  have "set (map fst s1) = set (map fst s2)"
    using assms(3) by (metis dom_map_of_conv_image_fst set_map)
  then show ?thesis using assms(1,2)
    by (intro sorted_distinct_set_unique) simp_all
qed

lemma pinned_entry_cong: "map_of s1 = map_of s2 \<Longrightarrow> pinned_entry s1 = pinned_entry s2"
  by (rule ext) (simp add: pinned_entry_def)

lemma generate_header_string_cong:
  assumes "distinct (map fst s1)" "distinct (map fst s2)" "map_of s1 = map_of s2"
  shows "generate_header_string s1 m = generate_header_string s2 m"
proof -
  have "sort (map fst s1) = sort (map fst s2)"
    by (rule sort_keys_cong [OF assms])
  moreover have "pinned_entry s1 = pinned_entry s2"
    by (rule pinned_entry_cong [OF assms(3)])
  ultimately show ?thesis
    by (simp add: generate_header_string_def header_strings_def)
qed

text \<open>
  Claim C5. The header is a function of the symbol table and the missing set alone: two
  calls on the same table and the same set give the same string, whatever the order in
  which the dictionary was filled (the set has no order). The pinned bindings are emitted
  in sorted order of the keys, the poison bindings in sorted order of the missing names.
\<close>

theorem header_deterministic:
  "(distinct (map fst s1) \<and> distinct (map fst s2) \<and> map_of s1 = map_of s2 \<longrightarrow>
      generate_header_string s1 m = generate_header_string s2 m)
   \<and> generate_header_string syms m = join ''\<newline>'' (header_strings syms m)
   \<and> header_strings syms m =
       [''#if !defined(SET_GLIBC_LINK_VERSIONS_HEADER) && !defined(__ASSEMBLER__)'',
        ''#define SET_GLIBC_LINK_VERSIONS_HEADER'']
       @ map (pinned_entry syms) (sort (map fst syms))
       @ map poison_line (sorted_list_of_set m)
       @ [''#endif'', '''']
   \<and> sorted (sort (map fst syms))
   \<and> set (sort (map fst syms)) = fst ` set syms
   \<and> (distinct (map fst syms) \<longrightarrow> sorted_wrt (<) (sort (map fst syms)))
   \<and> sorted_wrt (<) (sorted_list_of_set m)
   \<and> (finite m \<longrightarrow> set (sorted_list_of_set m) = m)"
proof (intro conjI)
  show "distinct (map fst s1) \<and> distinct (map fst s2) \<and> map_of s1 = map_of s2 \<longrightarrow>
      generate_header_string s1 m = generate_header_string s2 m"
    using generate_header_string_cong by blast
  show "generate_header_string syms m = join ''\<newline>'' (header_strings syms m)"
    by (simp add: generate_header_string_def)
  show "header_strings syms m =
       [''#if !defined(SET_GLIBC_LINK_VERSIONS_HEADER) && !defined(__ASSEMBLER__)'',
        ''#define SET_GLIBC_LINK_VERSIONS_HEADER'']
       @ map (pinned_entry syms) (sort (map fst syms))
       @ map poison_line (sorted_list_of_set m)
       @ [''#endif'', '''']"
    by (simp add: header_strings_def)
  show "sorted (sort (map fst syms))"
    by simp
  show "set (sort (map fst syms)) = fst ` set syms"
    by simp
  show "distinct (map fst syms) \<longrightarrow> sorted_wrt (<) (sort (map fst syms))"
    by (simp add: strict_sorted_iff)
  show "sorted_wrt (<) (sorted_list_of_set m)"
    by simp
  show "finite m \<longrightarrow> set (sorted_list_of_set m) = m"
    by simp
qed

theorem header_deterministic_witness:
  "distinct (map fst [(''write'', ''GLIBC_2.0''), (''read'', ''GLIBC_2.1'')])
   \<and> distinct (map fst [(''read'', ''GLIBC_2.1''), (''write'', ''GLIBC_2.0'')])
   \<and> map_of [(''write'', ''GLIBC_2.0''), (''read'', ''GLIBC_2.1'')]
       = map_of [(''read'', ''GLIBC_2.1''), (''write'', ''GLIBC_2.0'')]
   \<and> generate_header_string [(''write'', ''GLIBC_2.0''), (''read'', ''GLIBC_2.1'')] {''open'', ''close''}
       = generate_header_string [(''read'', ''GLIBC_2.1''), (''write'', ''GLIBC_2.0'')] {''close'', ''open''}
   \<and> sort (map fst [(''write'', ''GLIBC_2.0''), (''read'', ''GLIBC_2.1'')]) = [''read'', ''write'']
   \<and> sorted_list_of_set {''open'', ''close''} = [''close'', ''open'']"
proof -
  have d: "distinct (map fst [(''write'', ''GLIBC_2.0''), (''read'', ''GLIBC_2.1'')])"
    "distinct (map fst [(''read'', ''GLIBC_2.1''), (''write'', ''GLIBC_2.0'')])"
    by simp_all
  have m: "map_of [(''write'', ''GLIBC_2.0''), (''read'', ''GLIBC_2.1'')]
       = map_of [(''read'', ''GLIBC_2.1''), (''write'', ''GLIBC_2.0'')]"
    by (rule ext) simp
  have s: "{''open'', ''close''} = {''close'', ''open''}"
    by (rule insert_commute)
  have k: "sort (map fst [(''write'', ''GLIBC_2.0''), (''read'', ''GLIBC_2.1'')]) = [''read'', ''write'']"
    by code_simp
  have l: "sorted_list_of_set {''open'', ''close''} = [''close'', ''open'']"
    by code_simp
  have "generate_header_string [(''write'', ''GLIBC_2.0''), (''read'', ''GLIBC_2.1'')] {''open'', ''close''}
       = generate_header_string [(''read'', ''GLIBC_2.1''), (''write'', ''GLIBC_2.0'')] {''open'', ''close''}"
    using header_deterministic
      [of "[(''write'', ''GLIBC_2.0''), (''read'', ''GLIBC_2.1'')]"
          "[(''read'', ''GLIBC_2.1''), (''write'', ''GLIBC_2.0'')]" "{''open'', ''close''}"]
      d m by blast
  with d m k l show ?thesis
    by (simp only: s simp_thms)
qed

section \<open>The merge loop of the extraction\<close>

lemma merge_lines_Cons:
  "merge_lines (line # rest) syms dupes =
     (case parse_line line of
        None \<Rightarrow> Inl ValueError
      | Some (symb, ver) \<Rightarrow>
          (case map_of syms symb of
             None \<Rightarrow> merge_lines rest (syms @ [(symb, ver)]) dupes
           | Some v \<Rightarrow>
               if v \<noteq> ver then merge_lines rest syms (dupes @ [line])
               else merge_lines rest syms dupes))"
  by (simp add: parse_line_def split: list.splits)

declare merge_lines.simps(2) [simp del]

lemma parse_line_None_iff: "parse_line l = None \<longleftrightarrow> length (split_str ''@@'' l) \<noteq> 2"
  by (auto simp: parse_line_def split: list.splits)

lemma parse_line_Some_iff: "parse_line l = Some (s, v) \<longleftrightarrow> split_str ''@@'' l = [s, v]"
  by (auto simp: parse_line_def split: list.splits)

lemma merge_lines_Inl:
  "merge_lines data syms dupes = Inl e \<Longrightarrow> e = ValueError \<and> (\<exists>l\<in>set data. parse_line l = None)"
proof (induction data arbitrary: syms dupes)
  case Nil
  then show ?case by simp
next
  case (Cons line rest)
  then show ?case
    unfolding merge_lines_Cons
    by (auto split: option.splits if_splits)
qed

lemma merge_lines_malformed:
  "\<exists>l\<in>set data. parse_line l = None \<Longrightarrow> merge_lines data syms dupes = Inl ValueError"
proof (induction data arbitrary: syms dupes)
  case Nil
  then show ?case by simp
next
  case (Cons line rest)
  show ?case
  proof (cases "parse_line line")
    case None
    then show ?thesis by (simp add: merge_lines_Cons)
  next
    case (Some p)
    with Cons.prems have "\<exists>l\<in>set rest. parse_line l = None" by auto
    from Cons.IH[OF this] Some show ?thesis
      by (simp add: merge_lines_Cons split: option.splits prod.splits)
  qed
qed

lemma map_of_append_present:
  "map_of syms k = Some v' \<Longrightarrow> map_of (syms @ (k, v) # ps) = map_of (syms @ ps)"
  by (rule ext) (auto simp: map_add_def split: option.splits)

text \<open>
  The invariant of the loop: the table keeps its keys distinct and holds the first
  version seen for each name; \<open>dupes\<close> collects, in order, every line whose version
  differs from the one the table holds for its name.
\<close>

lemma merge_lines_Inr:
  "merge_lines data syms dupes = Inr (syms', dupes') \<Longrightarrow> distinct (map fst syms) \<Longrightarrow>
     distinct (map fst syms')
     \<and> map_of syms' = map_of (syms @ List.map_filter parse_line data)
     \<and> set syms \<subseteq> set syms'
     \<and> set syms' \<subseteq> set syms \<union> set (List.map_filter parse_line data)
     \<and> dupes' = dupes @ filter (differs_from (map_of (syms @ List.map_filter parse_line data))) data"
proof (induction data arbitrary: syms dupes)
  case Nil
  then show ?case by simp
next
  case (Cons line rest)
  from Cons.prems(1) obtain s v where p: "parse_line line = Some (s, v)"
    by (auto simp: merge_lines_Cons split: option.splits)
  define P where "P = List.map_filter parse_line rest"
  have mf: "List.map_filter parse_line (line # rest) = (s, v) # P"
    by (simp add: p P_def)
  define M where "M = syms @ (s, v) # P"
  show ?case
  proof (cases "map_of syms s")
    case None
    with Cons.prems(1) p have r: "merge_lines rest (syms @ [(s, v)]) dupes = Inr (syms', dupes')"
      by (simp add: merge_lines_Cons)
    have d: "distinct (map fst (syms @ [(s, v)]))"
      using Cons.prems(2) None by (auto simp: map_of_eq_None_iff)
    have app: "(syms @ [(s, v)]) @ P = M"
      by (simp add: M_def)
    note ih = Cons.IH[OF r d, folded P_def, unfolded app]
    have here: "\<not> differs_from (map_of M) line"
      using None by (simp add: differs_from_def p M_def map_add_def)
    have 1: "distinct (map fst syms')" using ih by blast
    have 2: "map_of syms' = map_of M" using ih by blast
    have 3: "set syms \<subseteq> set syms'" using ih by auto
    have 4: "set syms' \<subseteq> set syms \<union> set ((s, v) # P)" using ih by auto
    have 5: "dupes' = dupes @ filter (differs_from (map_of M)) (line # rest)"
      using ih here by simp
    from 1 2 3 4 5 show ?thesis
      unfolding mf M_def by blast
  next
    case (Some v')
    have e: "map_of M = map_of (syms @ P)"
      unfolding M_def by (rule map_of_append_present[OF Some])
    have here: "differs_from (map_of M) line \<longleftrightarrow> v' \<noteq> v"
      using Some by (simp add: differs_from_def p M_def map_add_def)
    show ?thesis
    proof (cases "v' = v")
      case True
      with Cons.prems(1) p Some have r: "merge_lines rest syms dupes = Inr (syms', dupes')"
        by (simp add: merge_lines_Cons)
      note ih = Cons.IH[OF r Cons.prems(2), folded P_def, folded e]
      have 1: "distinct (map fst syms')" using ih by blast
      have 2: "map_of syms' = map_of M" using ih by blast
      have 3: "set syms \<subseteq> set syms'" using ih by auto
      have 4: "set syms' \<subseteq> set syms \<union> set ((s, v) # P)" using ih by auto
      have 5: "dupes' = dupes @ filter (differs_from (map_of M)) (line # rest)"
        using ih here True by simp
      from 1 2 3 4 5 show ?thesis
        unfolding mf M_def by blast
    next
      case False
      with Cons.prems(1) p Some have r: "merge_lines rest syms (dupes @ [line]) = Inr (syms', dupes')"
        by (simp add: merge_lines_Cons)
      note ih = Cons.IH[OF r Cons.prems(2), folded P_def, folded e]
      have 1: "distinct (map fst syms')" using ih by blast
      have 2: "map_of syms' = map_of M" using ih by blast
      have 3: "set syms \<subseteq> set syms'" using ih by auto
      have 4: "set syms' \<subseteq> set syms \<union> set ((s, v) # P)" using ih by auto
      have 5: "dupes' = dupes @ filter (differs_from (map_of M)) (line # rest)"
        using ih here False by simp
      from 1 2 3 4 5 show ?thesis
        unfolding mf M_def by blast
    qed
  qed
qed

lemma merge_lines_wellformed:
  assumes "\<forall>l\<in>set data. parse_line l \<noteq> None"
  shows "\<exists>r. merge_lines data syms dupes = Inr r"
proof (cases "merge_lines data syms dupes")
  case (Inl e)
  with merge_lines_Inl[OF Inl] assms show ?thesis by blast
next
  case (Inr r)
  then show ?thesis by blast
qed

lemma in_parsed_iff:
  "(s, v) \<in> set (List.map_filter parse_line data) \<longleftrightarrow> (\<exists>l\<in>set data. parse_line l = Some (s, v))"
  by (induction data) (auto split: option.splits)

lemma first_version_defined:
  assumes "l \<in> set data" "parse_line l = Some (s, v)"
  shows "\<exists>v0 l0. first_version data s = Some v0 \<and> l0 \<in> set data \<and> parse_line l0 = Some (s, v0)"
proof -
  have "(s, v) \<in> set (List.map_filter parse_line data)"
    using assms by (auto simp: in_parsed_iff)
  then have "s \<in> fst ` set (List.map_filter parse_line data)"
    by force
  then have "first_version data s \<noteq> None"
    unfolding first_version_def by (simp add: map_of_eq_None_iff)
  then obtain v0 where v0: "first_version data s = Some v0" by blast
  then have "(s, v0) \<in> set (List.map_filter parse_line data)"
    unfolding first_version_def by (rule map_of_SomeD)
  with v0 show ?thesis by (auto simp: in_parsed_iff)
qed

lemma conflicting_lines_nonempty_iff:
  "conflicting_lines data \<noteq> [] \<longleftrightarrow>
     (\<exists>l1\<in>set data. \<exists>l2\<in>set data. \<exists>s v1 v2.
        parse_line l1 = Some (s, v1) \<and> parse_line l2 = Some (s, v2) \<and> v1 \<noteq> v2)"
proof
  assume "conflicting_lines data \<noteq> []"
  then obtain l where l: "l \<in> set data" "differs_from (first_version data) l"
    unfolding conflicting_lines_def by (auto simp: filter_empty_conv)
  then obtain s v where p: "parse_line l = Some (s, v)" and ne: "first_version data s \<noteq> Some v"
    by (auto simp: differs_from_def split: option.splits)
  from first_version_defined[OF l(1) p] obtain v0 l0 where
    "first_version data s = Some v0" "l0 \<in> set data" "parse_line l0 = Some (s, v0)" by blast
  with l(1) p ne show "\<exists>l1\<in>set data. \<exists>l2\<in>set data. \<exists>s v1 v2.
        parse_line l1 = Some (s, v1) \<and> parse_line l2 = Some (s, v2) \<and> v1 \<noteq> v2"
    by (intro bexI[of _ l0] bexI[of _ l] exI[of _ s] exI[of _ v0] exI[of _ v]) auto
next
  assume "\<exists>l1\<in>set data. \<exists>l2\<in>set data. \<exists>s v1 v2.
        parse_line l1 = Some (s, v1) \<and> parse_line l2 = Some (s, v2) \<and> v1 \<noteq> v2"
  then obtain l1 l2 s v1 v2 where h: "l1 \<in> set data" "l2 \<in> set data"
    "parse_line l1 = Some (s, v1)" "parse_line l2 = Some (s, v2)" "v1 \<noteq> v2" by blast
  from first_version_defined[OF h(1) h(3)] obtain v0 where v0: "first_version data s = Some v0"
    by blast
  have "differs_from (first_version data) l1 \<or> differs_from (first_version data) l2"
    using h(3,4,5) v0 by (auto simp: differs_from_def)
  with h(1,2) show "conflicting_lines data \<noteq> []"
    unfolding conflicting_lines_def by (auto simp: filter_empty_conv)
qed

lemma symbols_of_data_malformed:
  "\<exists>l\<in>set data. parse_line l = None \<Longrightarrow> symbols_of_data data = Inl ValueError"
  by (simp add: symbols_of_data_def merge_lines_malformed)

lemma symbols_of_data_wellformed:
  assumes wf: "\<forall>l\<in>set data. parse_line l \<noteq> None"
  shows "symbols_of_data data =
           (if conflicting_lines data \<noteq> [] then Inl (DuplicateSymbols (conflicting_lines data))
            else Inr (fst (projr (merge_lines data [] []))))"
    and "conflicting_lines data = [] \<Longrightarrow> symbols_of_data data = Inr syms \<Longrightarrow>
           distinct (map fst syms) \<and> map_of syms = first_version data
           \<and> set syms = set (List.map_filter parse_line data)"
proof -
  from merge_lines_wellformed[OF wf] obtain syms' dupes' where
    m: "merge_lines data [] [] = Inr (syms', dupes')" by (metis surj_pair)
  from merge_lines_Inr[OF m] have
    inv: "distinct (map fst syms')" "map_of syms' = first_version data"
      "set syms' \<subseteq> set (List.map_filter parse_line data)"
      "dupes' = conflicting_lines data"
    by (simp_all add: first_version_def conflicting_lines_def)
  show "symbols_of_data data =
           (if conflicting_lines data \<noteq> [] then Inl (DuplicateSymbols (conflicting_lines data))
            else Inr (fst (projr (merge_lines data [] []))))"
    by (simp add: symbols_of_data_def m inv(4))
  assume nc: "conflicting_lines data = []" and r: "symbols_of_data data = Inr syms"
  then have eq: "syms = syms'"
    by (simp add: symbols_of_data_def m inv(4))
  have "set (List.map_filter parse_line data) \<subseteq> set syms'"
  proof
    fix sv assume sv: "sv \<in> set (List.map_filter parse_line data)"
    obtain s v where svp: "sv = (s, v)" by (cases sv)
    with sv obtain l where l: "l \<in> set data" "parse_line l = Some (s, v)"
      by (auto simp: in_parsed_iff)
    have "\<not> differs_from (first_version data) l"
      using nc l(1) unfolding conflicting_lines_def by (auto simp: filter_empty_conv)
    with l(2) have "first_version data s = Some v"
      by (simp add: differs_from_def)
    then have "map_of syms' s = Some v" by (simp add: inv(2))
    then show "sv \<in> set syms'" unfolding svp by (rule map_of_SomeD)
  qed
  with inv eq show "distinct (map fst syms) \<and> map_of syms = first_version data
           \<and> set syms = set (List.map_filter parse_line data)"
    by blast
qed

lemma symbols_of_data_Inl:
  "symbols_of_data data = Inl e \<longleftrightarrow>
     (if \<exists>l\<in>set data. parse_line l = None then e = ValueError
      else conflicting_lines data \<noteq> [] \<and> e = DuplicateSymbols (conflicting_lines data))"
proof (cases "\<exists>l\<in>set data. parse_line l = None")
  case True
  then show ?thesis by (auto simp: symbols_of_data_malformed)
next
  case False
  have wf: "\<forall>l\<in>set data. parse_line l \<noteq> None"
    using False by simp
  show ?thesis using False by (auto simp: symbols_of_data_wellformed(1)[OF wf])
qed

lemma symbols_of_data_distinct:
  assumes "symbols_of_data data = Inr syms"
  shows "distinct (map fst syms)"
proof -
  from assms obtain dupes where m: "merge_lines data [] [] = Inr (syms, dupes)"
    by (auto simp: symbols_of_data_def split: sum.splits if_splits)
  from merge_lines_Inr[OF m] show ?thesis by simp
qed

section \<open>The lines that reach the merge loop\<close>

lemma starts_with_any_iff: "starts_with_any str items \<longleftrightarrow> (\<exists>item\<in>set items. prefix item str)"
  by (induction items) auto

lemma kept_lines_eq:
  "(if in_window (Version2 2 17) version (Version2 2 27)
    then (if prefix ''librt'' (file_name f)
          then filter (\<lambda>x. \<not> starts_with_any x librt_clock_funcs) file_data
          else file_data)
    else file_data) = filter (\<lambda>line. \<not> excluded version f line) file_data"
  by (simp add: excluded_def)

lemma collect_data_Inr:
  "collect_data readelf version files data0 = Inr data \<Longrightarrow>
     data = data0 @ surviving_lines readelf version files
     \<and> (\<forall>f\<in>set files. file_name f \<notin> set linker_scripts \<longrightarrow> (\<exists>fd. readelf f = Some fd))"
proof (induction files arbitrary: data0)
  case Nil
  then show ?case by (simp add: surviving_lines_def)
next
  case (Cons f files)
  show ?case
  proof (cases "file_name f \<in> set linker_scripts")
    case True
    with Cons.prems have "collect_data readelf version files data0 = Inr data" by simp
    from Cons.IH[OF this] True show ?thesis by (simp add: surviving_lines_def)
  next
    case False
    with Cons.prems obtain fd where fd: "readelf f = Some fd"
      by (cases "readelf f") auto
    with Cons.prems False have
      "collect_data readelf version files
         (data0 @ filter (\<lambda>line. \<not> excluded version f line) fd) = Inr data"
      by (simp add: kept_lines_eq)
    from Cons.IH[OF this] False fd show ?thesis by (simp add: surviving_lines_def)
  qed
qed

lemma collect_data_total:
  "\<forall>f\<in>set files. file_name f \<notin> set linker_scripts \<longrightarrow> (\<exists>fd. readelf f = Some fd) \<Longrightarrow>
   collect_data readelf version files data0 = Inr (data0 @ surviving_lines readelf version files)"
proof (induction files arbitrary: data0)
  case Nil
  then show ?case by (simp add: surviving_lines_def)
next
  case (Cons f files)
  show ?case
  proof (cases "file_name f \<in> set linker_scripts")
    case True
    with Cons show ?thesis by (simp add: surviving_lines_def)
  next
    case False
    with Cons.prems obtain fd where fd: "readelf f = Some fd" by auto
    from Cons.prems have "\<forall>f\<in>set files. file_name f \<notin> set linker_scripts \<longrightarrow> (\<exists>fd. readelf f = Some fd)"
      by simp
    from Cons.IH[OF this] False fd show ?thesis
      by (simp add: kept_lines_eq surviving_lines_def)
  qed
qed

lemma surviving_lines_member:
  assumes "f \<in> set files" "file_name f \<notin> set linker_scripts" "readelf f = Some fd"
    and "l \<in> set fd" "\<not> excluded version f l"
  shows "l \<in> set (surviving_lines readelf version files)"
  using assms unfolding surviving_lines_def by force

lemma extract_eq:
  "extract_versions_from_installed_folder readelf files version =
     (case collect_data readelf version files [] of
        Inl e \<Rightarrow> Inl e
      | Inr data \<Rightarrow> symbols_of_data data)"
  by (simp add: extract_versions_from_installed_folder_def)

lemma extract_distinct:
  "extract_versions_from_installed_folder readelf files version = Inr syms \<Longrightarrow> distinct (map fst syms)"
  by (auto simp: extract_eq split: sum.splits dest: symbols_of_data_distinct)

lemma collect_data_Inl:
  "collect_data readelf version files data0 = Inl e \<Longrightarrow>
     \<exists>f\<in>set files. file_name f \<notin> set linker_scripts \<and> readelf f = None
        \<and> e = CalledProcessError (readelf_command f)"
proof (induction files arbitrary: data0)
  case Nil
  then show ?case by simp
next
  case (Cons f files)
  then show ?case
    by (cases "readelf f") (auto split: if_splits)
qed

section \<open>Conflicts, malformed lines and the librt exclusion\<close>

text \<open>
  Claim C2, as the code has it. The merge step fails with the conflict error exactly
  when every line that reaches it splits into a name and a version and some name occurs
  with two different versions. The error then carries, in order, each line whose version
  differs from the version first recorded for its name; the line recorded first is not
  in the list. When all lines split and no name has two versions, a table is returned:
  its keys are distinct, so that a name repeated at the same version has one entry, and
  it holds exactly the first version of every name. On a conflict no table is returned.
  When some line does not split, the failure is the \<open>ValueError\<close> of the unpacking and
  no conflict is reported.
\<close>

theorem merge_conflict_policy:
  "(symbols_of_data data = Inl (DuplicateSymbols ds) \<longleftrightarrow>
      (\<forall>l\<in>set data. parse_line l \<noteq> None) \<and> conflicting_lines data \<noteq> []
      \<and> ds = conflicting_lines data)
   \<and> (conflicting_lines data \<noteq> [] \<longleftrightarrow>
        (\<exists>l1\<in>set data. \<exists>l2\<in>set data. \<exists>s v1 v2.
           parse_line l1 = Some (s, v1) \<and> parse_line l2 = Some (s, v2) \<and> v1 \<noteq> v2))
   \<and> conflicting_lines data = filter (differs_from (first_version data)) data
   \<and> (differs_from (first_version data) l \<longleftrightarrow>
        (\<exists>s v. parse_line l = Some (s, v) \<and> first_version data s \<noteq> Some v))
   \<and> (conflicting_lines data \<noteq> [] \<longrightarrow> (\<forall>syms. symbols_of_data data \<noteq> Inr syms))
   \<and> ((\<forall>l\<in>set data. parse_line l \<noteq> None) \<and> conflicting_lines data = [] \<longrightarrow>
        (\<exists>syms. symbols_of_data data = Inr syms))
   \<and> (symbols_of_data data = Inr syms \<longrightarrow>
        (\<forall>l\<in>set data. parse_line l \<noteq> None) \<and> conflicting_lines data = []
        \<and> distinct (map fst syms) \<and> map_of syms = first_version data
        \<and> set syms = set (List.map_filter parse_line data))
   \<and> (extract_versions_from_installed_folder readelf files version = Inl (DuplicateSymbols ds) \<longleftrightarrow>
        (\<exists>lines. collect_data readelf version files [] = Inr lines
           \<and> (\<forall>l\<in>set lines. parse_line l \<noteq> None) \<and> conflicting_lines lines \<noteq> []
           \<and> ds = conflicting_lines lines))
   \<and> symbols_of_data [''foo@@1.0'', ''foo@@2.0''] = Inl (DuplicateSymbols [''foo@@2.0''])
   \<and> symbols_of_data [''foo@@1.0'', ''foo@@1.0''] = Inr [(''foo'', ''1.0'')]"
proof (intro conjI)
  have dup: "symbols_of_data data = Inl (DuplicateSymbols ds) \<longleftrightarrow>
      (\<forall>l\<in>set data. parse_line l \<noteq> None) \<and> conflicting_lines data \<noteq> []
      \<and> ds = conflicting_lines data" for data ds
  proof (cases "\<exists>l\<in>set data. parse_line l = None")
    case True
    have l: "symbols_of_data data = Inl ValueError"
      using True by (rule symbols_of_data_malformed)
    from True obtain x where x: "x \<in> set data" "parse_line x = None" by blast
    have r: "\<not> (\<forall>l\<in>set data. parse_line l \<noteq> None)"
    proof
      assume "\<forall>l\<in>set data. parse_line l \<noteq> None"
      then have "parse_line x \<noteq> None" using x(1) by (rule bspec)
      then show False using x(2) by (rule notE)
    qed
    show ?thesis unfolding l using r by auto
  next
    case False
    have wf: "\<forall>l\<in>set data. parse_line l \<noteq> None"
      using False by simp
    show ?thesis unfolding symbols_of_data_wellformed(1)[OF wf] using wf by auto
  qed
  show "symbols_of_data data = Inl (DuplicateSymbols ds) \<longleftrightarrow>
      (\<forall>l\<in>set data. parse_line l \<noteq> None) \<and> conflicting_lines data \<noteq> []
      \<and> ds = conflicting_lines data"
    by (rule dup)
  show "conflicting_lines data \<noteq> [] \<longleftrightarrow>
        (\<exists>l1\<in>set data. \<exists>l2\<in>set data. \<exists>s v1 v2.
           parse_line l1 = Some (s, v1) \<and> parse_line l2 = Some (s, v2) \<and> v1 \<noteq> v2)"
    by (rule conflicting_lines_nonempty_iff)
  show "conflicting_lines data = filter (differs_from (first_version data)) data"
    by (simp add: conflicting_lines_def)
  show "differs_from (first_version data) l \<longleftrightarrow>
        (\<exists>s v. parse_line l = Some (s, v) \<and> first_version data s \<noteq> Some v)"
    by (auto simp: differs_from_def split: option.splits)
  have inr: "(\<forall>l\<in>set data. parse_line l \<noteq> None) \<and> conflicting_lines data = []"
    if "symbols_of_data data = Inr syms" for syms
  proof -
    have wf: "\<forall>l\<in>set data. parse_line l \<noteq> None"
    proof (rule ccontr)
      assume "\<not> (\<forall>l\<in>set data. parse_line l \<noteq> None)"
      then have "\<exists>l\<in>set data. parse_line l = None" by meson
      from symbols_of_data_malformed[OF this] that show False by simp
    qed
    have "conflicting_lines data = []"
      using symbols_of_data_wellformed(1)[OF wf] that by (simp split: if_splits)
    with wf show ?thesis by (rule conjI)
  qed
  show "conflicting_lines data \<noteq> [] \<longrightarrow> (\<forall>syms. symbols_of_data data \<noteq> Inr syms)"
    using inr by blast
  show "(\<forall>l\<in>set data. parse_line l \<noteq> None) \<and> conflicting_lines data = [] \<longrightarrow>
        (\<exists>syms. symbols_of_data data = Inr syms)"
  proof (intro impI, elim conjE)
    assume wf: "\<forall>l\<in>set data. parse_line l \<noteq> None" and nc: "conflicting_lines data = []"
    show "\<exists>syms. symbols_of_data data = Inr syms"
      unfolding symbols_of_data_wellformed(1)[OF wf] using nc by simp
  qed
  show "symbols_of_data data = Inr syms \<longrightarrow>
        (\<forall>l\<in>set data. parse_line l \<noteq> None) \<and> conflicting_lines data = []
        \<and> distinct (map fst syms) \<and> map_of syms = first_version data
        \<and> set syms = set (List.map_filter parse_line data)"
  proof
    assume r: "symbols_of_data data = Inr syms"
    note i = inr[OF r]
    from symbols_of_data_wellformed(2)[OF i[THEN conjunct1] i[THEN conjunct2] r] i
    show "(\<forall>l\<in>set data. parse_line l \<noteq> None) \<and> conflicting_lines data = []
        \<and> distinct (map fst syms) \<and> map_of syms = first_version data
        \<and> set syms = set (List.map_filter parse_line data)"
      by blast
  qed
  show "extract_versions_from_installed_folder readelf files version = Inl (DuplicateSymbols ds) \<longleftrightarrow>
        (\<exists>lines. collect_data readelf version files [] = Inr lines
           \<and> (\<forall>l\<in>set lines. parse_line l \<noteq> None) \<and> conflicting_lines lines \<noteq> []
           \<and> ds = conflicting_lines lines)"
  proof (cases "collect_data readelf version files []")
    case (Inl e)
    from collect_data_Inl[OF Inl] obtain cmd where "e = CalledProcessError cmd" by blast
    with Inl show ?thesis by (simp add: extract_eq)
  next
    case (Inr lines)
    then show ?thesis by (simp add: extract_eq dup)
  qed
  show "symbols_of_data [''foo@@1.0'', ''foo@@2.0''] = Inl (DuplicateSymbols [''foo@@2.0''])"
    by code_simp
  show "symbols_of_data [''foo@@1.0'', ''foo@@1.0''] = Inr [(''foo'', ''1.0'')]"
    by code_simp
qed

theorem merge_conflict_policy_witness:
  "symbols_of_data [''foo@@1.0'', ''foo@@2.0'', ''bar@@1'', ''foo@@1.0'', ''bar@@2'', ''foo@@3.0'']
     = Inl (DuplicateSymbols [''foo@@2.0'', ''bar@@2'', ''foo@@3.0''])
   \<and> conflicting_lines [''foo@@1.0'', ''foo@@2.0'', ''bar@@1'', ''foo@@1.0'', ''bar@@2'', ''foo@@3.0'']
     = [''foo@@2.0'', ''bar@@2'', ''foo@@3.0'']
   \<and> list_all (\<lambda>l. parse_line l \<noteq> None)
        [''foo@@1.0'', ''foo@@2.0'', ''bar@@1'', ''foo@@1.0'', ''bar@@2'', ''foo@@3.0'']"
proof -
  have e: "symbols_of_data [''foo@@1.0'', ''foo@@2.0'', ''bar@@1'', ''foo@@1.0'', ''bar@@2'', ''foo@@3.0'']
     = Inl (DuplicateSymbols [''foo@@2.0'', ''bar@@2'', ''foo@@3.0''])"
    by code_simp
  note w = merge_conflict_policy [THEN conjunct1, THEN iffD1, OF e]
  have 1: "list_all (\<lambda>l. parse_line l \<noteq> None)
        [''foo@@1.0'', ''foo@@2.0'', ''bar@@1'', ''foo@@1.0'', ''bar@@2'', ''foo@@3.0'']"
    unfolding list_all_iff by (rule w [THEN conjunct1])
  note 2 = w [THEN conjunct2, THEN conjunct2, symmetric]
  from e 2 1 show ?thesis
    by (intro conjI)
qed

text \<open>
  The error of a conflict does not list the line that was recorded first: for
  \<open>foo@@1.0\<close> followed by \<open>foo@@2.0\<close> it holds \<open>foo@@2.0\<close> only. A line that does not
  split makes the merge loop fail with the \<open>ValueError\<close> of the unpacking, with or without
  a conflict, and then no list is reported.
\<close>

theorem conflict_error_omits_first_recorded_line:
  "extract_versions_from_installed_folder (\<lambda>f. Some [''foo@@1.0'', ''foo@@2.0''])
      [''/install/lib/libfoo.so''] (Version2 2 5) = Inl (DuplicateSymbols [''foo@@2.0''])
   \<and> ''foo@@1.0'' \<notin> set [''foo@@2.0'']
   \<and> extract_versions_from_installed_folder (\<lambda>f. Some [''foo@@1.0'', ''foo@@2.0'', ''bar''])
        [''/install/lib/libfoo.so''] (Version2 2 5) = Inl ValueError
   \<and> extract_versions_from_installed_folder (\<lambda>f. Some [''bar''])
        [''/install/lib/libfoo.so''] (Version2 2 5) = Inl ValueError"
  by code_simp

text \<open>
  Claim C8, as the code has it. An export line splits into a name and a version when
  \<^verbatim>\<open>line.split("@@")\<close> has exactly two parts. A line that reaches the merge loop (a line
  of an object that is not a skipped linker script, and that the librt clock exclusion
  does not drop) and does not split so makes the extraction fail: no table is returned,
  and the error is the \<open>ValueError\<close> of the unpacking whenever every \<^verbatim>\<open>readelf\<close> run
  succeeded. The lines that the exclusion drops are never split.
\<close>

theorem malformed_surviving_line_is_fatal:
  "(parse_line l = None \<longleftrightarrow> length (split_str ''@@'' l) \<noteq> 2)
   \<and> ((\<exists>x\<in>set data. parse_line x = None) \<longleftrightarrow> symbols_of_data data = Inl ValueError)
   \<and> (collect_data readelf version files [] = Inr data \<and> l \<in> set data \<and> parse_line l = None
        \<longrightarrow> extract_versions_from_installed_folder readelf files version = Inl ValueError)
   \<and> (f \<in> set files \<and> file_name f \<notin> set linker_scripts \<and> readelf f = Some file_data
        \<and> l \<in> set file_data \<and> \<not> excluded version f l \<and> parse_line l = None
        \<longrightarrow> (\<exists>e. extract_versions_from_installed_folder readelf files version = Inl e)
            \<and> ((\<forall>g\<in>set files. file_name g \<notin> set linker_scripts \<longrightarrow> (\<exists>fd. readelf g = Some fd))
                 \<longrightarrow> extract_versions_from_installed_folder readelf files version = Inl ValueError))
   \<and> parse_line ''foo'' = None
   \<and> parse_line ''foo@@GLIBC_2.5@@GLIBC_2.6'' = None
   \<and> parse_line ''foo@@GLIBC_2.5'' = Some (''foo'', ''GLIBC_2.5'')"
proof (intro conjI)
  show "parse_line l = None \<longleftrightarrow> length (split_str ''@@'' l) \<noteq> 2"
    by (rule parse_line_None_iff)
  show "(\<exists>x\<in>set data. parse_line x = None) \<longleftrightarrow> symbols_of_data data = Inl ValueError"
    by (auto simp: symbols_of_data_Inl)
  show "collect_data readelf version files [] = Inr data \<and> l \<in> set data \<and> parse_line l = None
        \<longrightarrow> extract_versions_from_installed_folder readelf files version = Inl ValueError"
    by (auto simp: extract_eq intro: symbols_of_data_malformed)
  show "f \<in> set files \<and> file_name f \<notin> set linker_scripts \<and> readelf f = Some file_data
        \<and> l \<in> set file_data \<and> \<not> excluded version f l \<and> parse_line l = None
        \<longrightarrow> (\<exists>e. extract_versions_from_installed_folder readelf files version = Inl e)
            \<and> ((\<forall>g\<in>set files. file_name g \<notin> set linker_scripts \<longrightarrow> (\<exists>fd. readelf g = Some fd))
                 \<longrightarrow> extract_versions_from_installed_folder readelf files version = Inl ValueError)"
  proof (intro impI, elim conjE)
    assume h: "f \<in> set files" "file_name f \<notin> set linker_scripts" "readelf f = Some file_data"
      "l \<in> set file_data" "\<not> excluded version f l" "parse_line l = None"
    have mem: "l \<in> set (surviving_lines readelf version files)"
      by (rule surviving_lines_member[of f files readelf file_data l version, OF h(1-5)])
    have a: "\<exists>e. extract_versions_from_installed_folder readelf files version = Inl e"
    proof (cases "collect_data readelf version files []")
      case (Inl e)
      then show ?thesis by (simp add: extract_eq)
    next
      case (Inr lines)
      from collect_data_Inr[OF Inr] mem have "\<exists>x\<in>set lines. parse_line x = None"
        using h(6) by auto
      from symbols_of_data_malformed[OF this] Inr show ?thesis by (simp add: extract_eq)
    qed
    have b: "extract_versions_from_installed_folder readelf files version = Inl ValueError"
      if ok: "\<forall>g\<in>set files. file_name g \<notin> set linker_scripts \<longrightarrow> (\<exists>fd. readelf g = Some fd)"
    proof -
      from collect_data_total[OF ok] have
        c: "collect_data readelf version files [] = Inr (surviving_lines readelf version files)"
        by simp
      have "\<exists>x\<in>set (surviving_lines readelf version files). parse_line x = None"
        using mem h(6) by blast
      from symbols_of_data_malformed[OF this] c show ?thesis by (simp add: extract_eq)
    qed
    from a b show "(\<exists>e. extract_versions_from_installed_folder readelf files version = Inl e)
            \<and> ((\<forall>g\<in>set files. file_name g \<notin> set linker_scripts \<longrightarrow> (\<exists>fd. readelf g = Some fd))
                 \<longrightarrow> extract_versions_from_installed_folder readelf files version = Inl ValueError)"
      by blast
  qed
  show "parse_line ''foo'' = None"
    by code_simp
  show "parse_line ''foo@@GLIBC_2.5@@GLIBC_2.6'' = None"
    by code_simp
  show "parse_line ''foo@@GLIBC_2.5'' = Some (''foo'', ''GLIBC_2.5'')"
    by code_simp
qed

theorem malformed_surviving_line_is_fatal_witness:
  "collect_data (\<lambda>f. Some [''sin@@GLIBC_2.2.5'', ''cos'']) (Version2 2 20) [''/install/lib/libm-2.20.so''] []
     = Inr [''sin@@GLIBC_2.2.5'', ''cos'']
   \<and> ''cos'' \<in> set [''sin@@GLIBC_2.2.5'', ''cos'']
   \<and> parse_line ''cos'' = None
   \<and> extract_versions_from_installed_folder (\<lambda>f. Some [''sin@@GLIBC_2.2.5'', ''cos''])
        [''/install/lib/libm-2.20.so''] (Version2 2 20) = Inl ValueError"
proof -
  have c: "collect_data (\<lambda>f. Some [''sin@@GLIBC_2.2.5'', ''cos'']) (Version2 2 20)
      [''/install/lib/libm-2.20.so''] [] = Inr [''sin@@GLIBC_2.2.5'', ''cos'']"
    by code_simp
  have m: "''cos'' \<in> set [''sin@@GLIBC_2.2.5'', ''cos'']"
    by simp
  have p: "parse_line ''cos'' = None"
    by code_simp
  from malformed_surviving_line_is_fatal [THEN conjunct2, THEN conjunct2, THEN conjunct1,
      THEN mp, OF conjI [OF c conjI [OF m p]]] c m p
  show ?thesis by blast
qed

text \<open>
  The claim as stated fails: a line with two \<^verbatim>\<open>@@\<close> in librt that starts with
  \<^verbatim>\<open>clock_gettime\<close> is dropped by the exclusion for version 2.20 before it is split, and
  the extraction returns a table.
\<close>

theorem malformed_line_dropped_by_exclusion:
  "parse_line ''clock_gettime@@GLIBC_2.17@@GLIBC_2.17'' = None
   \<and> extract_versions_from_installed_folder
        (\<lambda>f. Some [''clock_gettime@@GLIBC_2.17@@GLIBC_2.17''])
        [''/install/lib/librt-2.20.so''] (Version2 2 20) = Inr []"
  by code_simp

text \<open>
  Claim C3. For a target version from 2.17 to 2.27, the lines of an object whose file
  name starts with \<^verbatim>\<open>librt\<close> that start with one of the five clock function names are
  dropped before the merge; no other line is dropped, and outside the window none is.
  For version 2.20, \<^verbatim>\<open>clock_gettime\<close> exported by libc and by librt gives one
  table entry (that of libc) and no conflict, in either order of the files; for 2.16 and
  2.28 the same exports conflict.
\<close>

theorem librt_clock_exclusion:
  "(excluded version f line \<longleftrightarrow>
      in_window (Version2 2 17) version (Version2 2 27)
      \<and> prefix ''librt'' (file_name f)
      \<and> (\<exists>name\<in>set [''clock_getcpuclockid'', ''clock_nanosleep'', ''clock_getres'',
                       ''clock_settime'', ''clock_gettime'']. prefix name line))
   \<and> (collect_data readelf version files [] = Inr data \<longrightarrow>
        data = concat (map (\<lambda>f. case readelf f of
                                   None \<Rightarrow> []
                                 | Some file_data \<Rightarrow> filter (\<lambda>line. \<not> excluded version f line) file_data)
                           (filter (\<lambda>f. file_name f \<notin> set linker_scripts) files)))
   \<and> (\<not> in_window (Version2 2 17) version (Version2 2 27) \<longrightarrow> \<not> excluded version f line)
   \<and> (in_window (Version2 2 17) version (Version2 2 27) \<longleftrightarrow>
        version_le (Version2 2 17) version \<and> version_le version (Version2 2 27))
   \<and> extract_versions_from_installed_folder
        (\<lambda>f. if f = ''/install/lib/libc-2.20.so'' then Some [''clock_gettime@@GLIBC_2.17'']
              else Some [''clock_gettime@@GLIBC_2.2.5''])
        [''/install/lib/libc-2.20.so'', ''/install/lib/librt-2.20.so''] (Version2 2 20)
      = Inr [(''clock_gettime'', ''GLIBC_2.17'')]
   \<and> extract_versions_from_installed_folder
        (\<lambda>f. if f = ''/install/lib/libc-2.20.so'' then Some [''clock_gettime@@GLIBC_2.17'']
              else Some [''clock_gettime@@GLIBC_2.2.5''])
        [''/install/lib/librt-2.20.so'', ''/install/lib/libc-2.20.so''] (Version2 2 20)
      = Inr [(''clock_gettime'', ''GLIBC_2.17'')]
   \<and> extract_versions_from_installed_folder
        (\<lambda>f. if f = ''/install/lib/libc-2.20.so'' then Some [''clock_gettime@@GLIBC_2.17'']
              else Some [''clock_gettime@@GLIBC_2.2.5''])
        [''/install/lib/libc-2.20.so'', ''/install/lib/librt-2.20.so''] (Version2 2 16)
      = Inl (DuplicateSymbols [''clock_gettime@@GLIBC_2.2.5''])
   \<and> extract_versions_from_installed_folder
        (\<lambda>f. if f = ''/install/lib/libc-2.20.so'' then Some [''clock_gettime@@GLIBC_2.17'']
              else Some [''clock_gettime@@GLIBC_2.2.5''])
        [''/install/lib/libc-2.20.so'', ''/install/lib/librt-2.20.so''] (Version2 2 28)
      = Inl (DuplicateSymbols [''clock_gettime@@GLIBC_2.2.5''])"
proof (intro conjI)
  show "excluded version f line \<longleftrightarrow>
      in_window (Version2 2 17) version (Version2 2 27)
      \<and> prefix ''librt'' (file_name f)
      \<and> (\<exists>name\<in>set [''clock_getcpuclockid'', ''clock_nanosleep'', ''clock_getres'',
                       ''clock_settime'', ''clock_gettime'']. prefix name line)"
    unfolding excluded_def starts_with_any_iff librt_clock_funcs_def by (rule refl)
  show "collect_data readelf version files [] = Inr data \<longrightarrow>
        data = concat (map (\<lambda>f. case readelf f of
                                   None \<Rightarrow> []
                                 | Some file_data \<Rightarrow> filter (\<lambda>line. \<not> excluded version f line) file_data)
                           (filter (\<lambda>f. file_name f \<notin> set linker_scripts) files))"
    using collect_data_Inr[of readelf version files "[]" data]
    by (simp add: surviving_lines_def)
  show "\<not> in_window (Version2 2 17) version (Version2 2 27) \<longrightarrow> \<not> excluded version f line"
    by (simp add: excluded_def)
  show "in_window (Version2 2 17) version (Version2 2 27) \<longleftrightarrow>
        version_le (Version2 2 17) version \<and> version_le version (Version2 2 27)"
    by (simp add: in_window_def)
  show "extract_versions_from_installed_folder
        (\<lambda>f. if f = ''/install/lib/libc-2.20.so'' then Some [''clock_gettime@@GLIBC_2.17'']
              else Some [''clock_gettime@@GLIBC_2.2.5''])
        [''/install/lib/libc-2.20.so'', ''/install/lib/librt-2.20.so''] (Version2 2 20)
      = Inr [(''clock_gettime'', ''GLIBC_2.17'')]"
    by code_simp
  show "extract_versions_from_installed_folder
        (\<lambda>f. if f = ''/install/lib/libc-2.20.so'' then Some [''clock_gettime@@GLIBC_2.17'']
              else Some [''clock_gettime@@GLIBC_2.2.5''])
        [''/install/lib/librt-2.20.so'', ''/install/lib/libc-2.20.so''] (Version2 2 20)
      = Inr [(''clock_gettime'', ''GLIBC_2.17'')]"
    by code_simp
  show "extract_versions_from_installed_folder
        (\<lambda>f. if f = ''/install/lib/libc-2.20.so'' then Some [''clock_gettime@@GLIBC_2.17'']
              else Some [''clock_gettime@@GLIBC_2.2.5''])
        [''/install/lib/libc-2.20.so'', ''/install/lib/librt-2.20.so''] (Version2 2 16)
      = Inl (DuplicateSymbols [''clock_gettime@@GLIBC_2.2.5''])"
    by code_simp
  show "extract_versions_from_installed_folder
        (\<lambda>f. if f = ''/install/lib/libc-2.20.so'' then Some [''clock_gettime@@GLIBC_2.17'']
              else Some [''clock_gettime@@GLIBC_2.2.5''])
        [''/install/lib/libc-2.20.so'', ''/install/lib/librt-2.20.so''] (Version2 2 28)
      = Inl (DuplicateSymbols [''clock_gettime@@GLIBC_2.2.5''])"
    by code_simp
qed

theorem librt_clock_exclusion_witness:
  "collect_data (\<lambda>f. Some [''clock_nanosleep@@GLIBC_2.2.5'', ''timer_create@@GLIBC_2.3.3''])
      (Version2 2 17) [''/install/lib/librt.so.1''] []
     = Inr [''timer_create@@GLIBC_2.3.3'']
   \<and> [''timer_create@@GLIBC_2.3.3''] =
       concat (map (\<lambda>f. case Some [''clock_nanosleep@@GLIBC_2.2.5'', ''timer_create@@GLIBC_2.3.3''] of
                          None \<Rightarrow> []
                        | Some file_data \<Rightarrow> filter (\<lambda>line. \<not> excluded (Version2 2 17) f line) file_data)
                   (filter (\<lambda>f. file_name f \<notin> set linker_scripts) [''/install/lib/librt.so.1'']))
   \<and> \<not> in_window (Version2 2 17) (Version3 2 16 1) (Version2 2 27)
   \<and> \<not> excluded (Version3 2 16 1) ''/install/lib/librt.so.1'' ''clock_nanosleep@@GLIBC_2.2.5''"
proof -
  have c: "collect_data (\<lambda>f. Some [''clock_nanosleep@@GLIBC_2.2.5'', ''timer_create@@GLIBC_2.3.3''])
      (Version2 2 17) [''/install/lib/librt.so.1''] [] = Inr [''timer_create@@GLIBC_2.3.3'']"
    by code_simp
  have w: "\<not> in_window (Version2 2 17) (Version3 2 16 1) (Version2 2 27)"
    by code_simp
  note a = librt_clock_exclusion [THEN conjunct2, THEN conjunct1, THEN mp, OF c]
  note b = librt_clock_exclusion [THEN conjunct2, THEN conjunct2, THEN conjunct1, THEN mp, OF w]
  from a b c w show ?thesis by blast
qed

section \<open>The lines of a header\<close>

lemma split_str_nonempty: "split_str sep s \<noteq> []"
  by (cases s) (simp_all add: Let_def)

lemma split1_sep: "split_str [c] (c # s) = [] # split_str [c] s"
  by simp

lemma split1_other:
  "x \<noteq> c \<Longrightarrow> split_str [c] (x # s) = (x # hd (split_str [c] s)) # tl (split_str [c] s)"
  by (simp add: Let_def)

lemma split1_append: "split_str [c] (a @ c # b) = split_str [c] a @ split_str [c] b"
proof (induction a)
  case Nil
  show ?case by simp
next
  case (Cons x a)
  show ?case
  proof (cases "x = c")
    case True
    then show ?thesis using Cons.IH by simp
  next
    case False
    have ne: "split_str [c] a \<noteq> []" by (rule split_str_nonempty)
    have "split_str [c] ((x # a) @ c # b)
            = (x # hd (split_str [c] (a @ c # b))) # tl (split_str [c] (a @ c # b))"
      using False by (simp add: Let_def)
    also have "\<dots> = (x # hd (split_str [c] a)) # tl (split_str [c] a) @ split_str [c] b"
      unfolding Cons.IH using ne by simp
    also have "\<dots> = split_str [c] (x # a) @ split_str [c] b"
      using False by (simp add: Let_def)
    finally show ?thesis .
  qed
qed

lemma split1_clean: "c \<notin> set a \<Longrightarrow> split_str [c] a = [a]"
  by (induction a) (auto simp: Let_def)

lemma split1_join:
  "xs \<noteq> [] \<Longrightarrow> split_str [c] (join [c] xs) = concat (map (split_str [c]) xs)"
proof (induction xs)
  case Nil
  then show ?case by simp
next
  case (Cons x xs)
  show ?case
  proof (cases xs)
    case Nil
    then show ?thesis by simp
  next
    case (Cons y zs)
    have "join [c] (x # xs) = x @ c # join [c] xs"
      unfolding Cons by simp
    then show ?thesis
      using Cons.IH Cons by (simp add: split1_append)
  qed
qed

lemma concat_split1_clean:
  "\<forall>x\<in>set xs. c \<notin> set x \<Longrightarrow> concat (map (split_str [c]) xs) = xs"
  by (induction xs) (simp_all add: split1_clean)

lemma prefix_upto_comma:
  "CHR '','' \<notin> set a \<Longrightarrow> CHR '','' \<notin> set b \<Longrightarrow>
   prefix (a @ CHR '','' # r1) (b @ CHR '','' # r2) \<Longrightarrow> a = b"
proof (induction a arbitrary: b)
  case Nil
  then show ?case by (cases b) auto
next
  case (Cons x a)
  then show ?case by (cases b) auto
qed

lemma prefix_symver_iff:
  assumes "CHR '','' \<notin> set s0" "CHR '','' \<notin> set s"
  shows "prefix (binding_prefix s0) (symver_line s v) \<longleftrightarrow> s = s0"
proof
  assume "prefix (binding_prefix s0) (symver_line s v)"
  then have "prefix (s0 @ CHR '','' # (s0 @ ''@'')) (s @ CHR '','' # (s @ ''@'' @ v @ ''\");''))"
    by (simp add: binding_prefix_def symver_line_def)
  from prefix_upto_comma[OF assms this] show "s = s0" by simp
next
  assume "s = s0"
  then show "prefix (binding_prefix s0) (symver_line s v)"
    by (simp add: binding_prefix_def symver_line_def)
qed

lemma prefix_poison_iff:
  assumes "CHR '','' \<notin> set s0" "CHR '','' \<notin> set s"
  shows "prefix (binding_prefix s0) (poison_line s) \<longleftrightarrow> s = s0"
proof
  assume "prefix (binding_prefix s0) (poison_line s)"
  then have "prefix (s0 @ CHR '','' # (s0 @ ''@''))
      (s @ CHR '','' # (s @ ''@GLIBC_WRAP_ERROR_SYMBOL_NOT_PRESENT_IN_REQUESTED_VERSION\");''))"
    by (simp add: binding_prefix_def poison_line_def)
  from prefix_upto_comma[OF assms this] show "s = s0" by simp
next
  assume "s = s0"
  then show "prefix (binding_prefix s0) (poison_line s)"
    by (simp add: binding_prefix_def poison_line_def)
qed

lemma binding_prefix_hd: "prefix (binding_prefix s0) l \<Longrightarrow> l \<noteq> [] \<and> hd l = CHR ''_''"
  by (cases l) (auto simp: binding_prefix_def)

lemma not_binding_hash: "\<not> prefix (binding_prefix s0) (CHR ''#'' # l)"
  using binding_prefix_hd[of s0 "CHR ''#'' # l"] by auto

lemma not_binding_empty: "\<not> prefix (binding_prefix s0) []"
  using binding_prefix_hd[of s0 "[]"] by auto

lemma guards_for_hash: "g \<in> set (guards_for libc libgcc libstdcpp s) \<Longrightarrow> \<exists>l. g = CHR ''#'' # l \<and> CHR ''\<newline>'' \<notin> set g"
  by (auto simp: guards_for_def split: if_splits)

lemma filter_guards: "filter (prefix (binding_prefix s0)) (guards_for libc libgcc libstdcpp s) = []"
  by (auto simp: filter_empty_conv dest!: guards_for_hash simp: not_binding_hash)

lemma filter_endifs: "filter (prefix (binding_prefix s0)) (replicate n ''#endif'') = []"
  by (auto simp: filter_empty_conv not_binding_hash)

lemma symver_line_clean:
  "CHR ''\<newline>'' \<notin> set s \<Longrightarrow> CHR ''\<newline>'' \<notin> set v \<Longrightarrow> CHR ''\<newline>'' \<notin> set (symver_line s v)"
  by (simp add: symver_line_def)

lemma poison_line_clean: "CHR ''\<newline>'' \<notin> set s \<Longrightarrow> CHR ''\<newline>'' \<notin> set (poison_line s)"
  by (simp add: poison_line_def)

lemma lines_guard_line:
  assumes "CHR ''\<newline>'' \<notin> set line0"
  shows "split_str ''\<newline>'' (guard_line libc libgcc libstdcpp s line0) =
           guards_for libc libgcc libstdcpp s @ [line0]
           @ replicate (length (guards_for libc libgcc libstdcpp s)) ''#endif''"
proof -
  let ?xs = "guards_for libc libgcc libstdcpp s @ [line0]
           @ replicate (length (guards_for libc libgcc libstdcpp s)) ''#endif''"
  have "\<forall>x\<in>set ?xs. CHR ''\<newline>'' \<notin> set x"
    using assms by (auto dest!: guards_for_hash)
  then have "concat (map (split_str ''\<newline>'') ?xs) = ?xs"
    by (rule concat_split1_clean)
  moreover have "split_str ''\<newline>'' (join ''\<newline>'' ?xs) = concat (map (split_str ''\<newline>'') ?xs)"
    by (rule split1_join) simp
  ultimately show ?thesis by (simp add: guard_line_join)
qed

lemma filter_pinned_entry:
  assumes "map_of t s = Some v" "clean_name s" "CHR ''\<newline>'' \<notin> set v" "clean_name s0"
  shows "filter (prefix (binding_prefix s0)) (split_str ''\<newline>'' (pinned_entry t s))
           = (if s = s0 then [symver_line s v] else [])"
proof -
  have c: "CHR ''\<newline>'' \<notin> set (symver_line s v)"
    using assms(2,3) by (simp add: symver_line_clean clean_name_def)
  have p: "prefix (binding_prefix s0) (symver_line s v) \<longleftrightarrow> s = s0"
    using assms(2,4) by (intro prefix_symver_iff) (simp_all add: clean_name_def)
  show ?thesis
    unfolding pinned_entry_def assms(1) option.sel lines_guard_line[OF c]
    by (simp add: filter_guards filter_endifs p)
qed

lemma concat_pick:
  "distinct xs \<Longrightarrow> concat (map (\<lambda>s. if s = s0 then [f s] else []) xs) = (if s0 \<in> set xs then [f s0] else [])"
  by (induction xs) auto

lemma count_list_distinct: "distinct xs \<Longrightarrow> count_list xs x = (if x \<in> set xs then 1 else 0)"
  by (induction xs) auto

lemma filter_pick: "distinct xs \<Longrightarrow> filter (\<lambda>s. s = s0) xs = (if s0 \<in> set xs then [s0] else [])"
  by (induction xs) auto

lemma clean_table_entry:
  "clean_table t \<Longrightarrow> (s, v) \<in> set t \<Longrightarrow> clean_name s \<and> CHR ''\<newline>'' \<notin> set v"
  by (auto simp: clean_table_def list_all_iff)

lemma clean_table_key: "clean_table t \<Longrightarrow> s \<in> set (map fst t) \<Longrightarrow> clean_name s"
  by (auto dest: clean_table_entry)

lemma lines_header:
  assumes "clean_table t" "finite m" "\<forall>x\<in>m. clean_name x"
  shows "split_str ''\<newline>'' (generate_header_string t m) =
     [''#if !defined(SET_GLIBC_LINK_VERSIONS_HEADER) && !defined(__ASSEMBLER__)'',
      ''#define SET_GLIBC_LINK_VERSIONS_HEADER'']
     @ concat (map (\<lambda>s. split_str ''\<newline>'' (pinned_entry t s)) (sort (map fst t)))
     @ map poison_line (sorted_list_of_set m)
     @ [''#endif'', '''']"
proof -
  have ne: "header_strings t m \<noteq> []" by (simp add: header_strings_def)
  have p: "concat (map (split_str ''\<newline>'') (map poison_line (sorted_list_of_set m)))
             = map poison_line (sorted_list_of_set m)"
    using assms(2,3) by (intro concat_split1_clean) (auto simp: clean_name_def poison_line_clean)
  have a: "split_str ''\<newline>'' ''#if !defined(SET_GLIBC_LINK_VERSIONS_HEADER) && !defined(__ASSEMBLER__)''
             = [''#if !defined(SET_GLIBC_LINK_VERSIONS_HEADER) && !defined(__ASSEMBLER__)'']"
    by (rule split1_clean) simp
  have b: "split_str ''\<newline>'' ''#define SET_GLIBC_LINK_VERSIONS_HEADER''
             = [''#define SET_GLIBC_LINK_VERSIONS_HEADER'']"
    by (rule split1_clean) simp
  have c: "split_str ''\<newline>'' ''#endif'' = [''#endif'']"
    by (rule split1_clean) simp
  have d: "split_str ''\<newline>'' '''' = ['''']"
    by simp
  have "split_str ''\<newline>'' (generate_header_string t m)
          = concat (map (split_str ''\<newline>'') (header_strings t m))"
    unfolding generate_header_string_def by (rule split1_join[OF ne])
  also have "\<dots> = [''#if !defined(SET_GLIBC_LINK_VERSIONS_HEADER) && !defined(__ASSEMBLER__)'',
      ''#define SET_GLIBC_LINK_VERSIONS_HEADER'']
     @ concat (map (\<lambda>s. split_str ''\<newline>'' (pinned_entry t s)) (sort (map fst t)))
     @ map poison_line (sorted_list_of_set m)
     @ [''#endif'', '''']"
    unfolding header_strings_def map_append concat_append p
    by (simp only: list.map concat.simps a b c d append.simps map_map o_def)
  finally show ?thesis .
qed

lemma binding_lines_header:
  assumes dist: "distinct (map fst t)" and ct: "clean_table t" and fin: "finite m"
    and cm: "\<forall>x\<in>m. clean_name x" and cs: "clean_name s0"
  shows "binding_lines s0 (generate_header_string t m) =
           (case map_of t s0 of Some v \<Rightarrow> [symver_line s0 v] | None \<Rightarrow> [])
           @ (if s0 \<in> m then [poison_line s0] else [])"
proof -
  let ?P = "prefix (binding_prefix s0)"
  have pre: "filter ?P [''#if !defined(SET_GLIBC_LINK_VERSIONS_HEADER) && !defined(__ASSEMBLER__)'',
      ''#define SET_GLIBC_LINK_VERSIONS_HEADER''] = []"
    by (simp only: filter.simps not_binding_hash if_False)
  have post: "filter ?P [''#endif'', ''''] = []"
    by (simp only: filter.simps not_binding_hash not_binding_empty if_False)
  have each: "filter ?P (split_str ''\<newline>'' (pinned_entry t s))
                = (if s = s0 then [symver_line s (the (map_of t s))] else [])"
    if "s \<in> set (sort (map fst t))" for s
  proof -
    from that obtain v where v: "(s, v) \<in> set t" by auto
    with dist have m: "map_of t s = Some v" by simp
    from clean_table_entry[OF ct v] have "clean_name s" "CHR ''\<newline>'' \<notin> set v" by simp_all
    from filter_pinned_entry[OF m this cs] show ?thesis
      unfolding m option.sel .
  qed
  have "concat (map (filter ?P) (map (\<lambda>s. split_str ''\<newline>'' (pinned_entry t s)) (sort (map fst t))))
          = concat (map (\<lambda>s. if s = s0 then [symver_line s (the (map_of t s))] else []) (sort (map fst t)))"
    unfolding map_map o_def using each by (intro arg_cong[where f = concat] map_cong refl) 
  also have "\<dots> = (if s0 \<in> set (sort (map fst t)) then [symver_line s0 (the (map_of t s0))] else [])"
    using dist by (intro concat_pick) simp
  also have "\<dots> = (case map_of t s0 of Some v \<Rightarrow> [symver_line s0 v] | None \<Rightarrow> [])"
  proof (cases "map_of t s0")
    case None
    then have "s0 \<notin> fst ` set t" by (simp add: map_of_eq_None_iff)
    then show ?thesis unfolding None by simp
  next
    case (Some v)
    then have "s0 \<in> fst ` set t" by (metis map_of_eq_None_iff option.distinct(1))
    then show ?thesis unfolding Some by simp
  qed
  finally have pinned: "filter ?P (concat (map (\<lambda>s. split_str ''\<newline>'' (pinned_entry t s)) (sort (map fst t))))
          = (case map_of t s0 of Some v \<Rightarrow> [symver_line s0 v] | None \<Rightarrow> [])"
    by (simp only: filter_concat)
  have "filter ?P (map poison_line (sorted_list_of_set m))
          = map poison_line (filter (\<lambda>s. s = s0) (sorted_list_of_set m))"
    unfolding filter_map o_def
  proof (intro arg_cong[where f = "map poison_line"] filter_cong refl)
    fix s assume "s \<in> set (sorted_list_of_set m)"
    with fin cm have "clean_name s" by simp
    with cs show "prefix (binding_prefix s0) (poison_line s) = (s = s0)"
      by (intro prefix_poison_iff) (simp_all add: clean_name_def)
  qed
  also have "\<dots> = (if s0 \<in> m then [poison_line s0] else [])"
    using fin by (simp add: filter_pick)
  finally have poison: "filter ?P (map poison_line (sorted_list_of_set m))
          = (if s0 \<in> m then [poison_line s0] else [])" .
  show ?thesis
    unfolding binding_lines_def lines_header[OF ct fin cm] filter_append pre post pinned poison
    by simp
qed

lemma list_all2_setD: "list_all2 P xs ys \<Longrightarrow> y \<in> set ys \<Longrightarrow> \<exists>x\<in>set xs. P x y"
  by (induction rule: list_all2_induct) auto

section \<open>Every name of the union is bound exactly once in every header\<close>

lemma bound_once:
  assumes "distinct (map fst t)" "finite A" "s \<in> A"
  shows "count_list (sort (map fst t) @ sorted_list_of_set (A - set (map fst t))) s = 1"
    and "(map_of t s = None) = (s \<in> A - set (map fst t))"
proof -
  have f: "finite (A - set (map fst t))" using assms(2) by simp
  have d: "distinct (sort (map fst t) @ sorted_list_of_set (A - set (map fst t)))"
    using assms(1) f by auto
  have "s \<in> set (sort (map fst t) @ sorted_list_of_set (A - set (map fst t)))"
    using assms(3) f by auto
  with count_list_distinct[OF d, of s]
  show "count_list (sort (map fst t) @ sorted_list_of_set (A - set (map fst t))) s = 1"
    by simp
  show "(map_of t s = None) = (s \<in> A - set (map fst t))"
    using assms(3) by (simp add: map_of_eq_None_iff)
qed

lemma binding_lines_once:
  assumes dist: "distinct (map fst t)" and ct: "clean_table t"
    and fin: "finite A" and ca: "\<forall>x \<in> A. clean_name x" and s: "s \<in> A"
  shows "binding_lines s (generate_header_string t (A - set (map fst t)))
           = (case map_of t s of Some ver \<Rightarrow> [symver_line s ver] | None \<Rightarrow> [poison_line s])"
proof -
  let ?m = "A - set (map fst t)"
  have fm: "finite ?m" using fin by simp
  have cm: "\<forall>x\<in>?m. clean_name x" using ca by simp
  have cs: "clean_name s" using ca s by (rule bspec)
  have iff: "(map_of t s = None) = (s \<in> ?m)"
    by (rule bound_once(2)[OF dist fin s])
  show ?thesis
  proof (cases "map_of t s")
    case None
    with iff have "s \<in> ?m" by simp
    then show ?thesis unfolding binding_lines_header[OF dist ct fm cm cs] None by simp
  next
    case (Some ver)
    with iff have "s \<notin> ?m" by simp
    then show ?thesis unfolding binding_lines_header[OF dist ct fm cm cs] Some by simp
  qed
qed

text \<open>
  Claim C1 --- completeness. When every extraction succeeds, \<^verbatim>\<open>main\<close> writes one header
  per requested version \<open>v\<close>: the header of the table of \<open>v\<close> with the missing set
  \<open>union - keys (table v)\<close>, where \<open>union\<close> is the union of the key sets of the tables of
  all requested versions. For every name \<open>s\<close> of this union and every header written:

  \<^item> \<open>s\<close> occurs exactly once in the two sequences the header is generated from, the sorted
    keys of the table (one pinned entry each) followed by the sorted missing set (one
    poison line each), and it is a key of the table exactly when it is not in the missing
    set;

  \<^item> when names and versions are as \<^verbatim>\<open>readelf\<close> prints them (no comma or line break in a
    name, no line break in a version), the text of the header has exactly one line that
    starts with \<^verbatim>\<open>__asm__(".symver s,s@\<close>: the pinned binding
    \<^verbatim>\<open>__asm__(".symver s,s@ver");\<close> when the table maps \<open>s\<close> to \<open>ver\<close>, the poison
    binding otherwise.

  The tables are Python dicts: their keys are distinct.
\<close>

theorem every_symbol_bound_exactly_once:
  assumes "\<forall>v \<in> set requested. extract v = Inr (table v)"
    and "\<forall>v \<in> set requested. distinct (map fst (table v))"
    and "s \<in> (\<Union>v \<in> set requested. set (map fst (table v)))"
  shows "\<exists>written. main extract requested = Inr written
          \<and> list_all2 (\<lambda>v (fname, content).
                fname = ''/force_link_glibc_'' @ version_as_str v @ ''.h''
              \<and> content = generate_header_string (table v)
                  ((\<Union>v' \<in> set requested. set (map fst (table v'))) - set (map fst (table v)))
              \<and> count_list (sort (map fst (table v))
                    @ sorted_list_of_set ((\<Union>v' \<in> set requested. set (map fst (table v')))
                                            - set (map fst (table v)))) s = 1
              \<and> ((map_of (table v) s = None)
                  = (s \<in> (\<Union>v' \<in> set requested. set (map fst (table v')))
                           - set (map fst (table v))))
              \<and> ((\<forall>v' \<in> set requested. clean_table (table v')) \<longrightarrow>
                    binding_lines s content
                      = (case map_of (table v) s of Some ver \<Rightarrow> [symver_line s ver]
                                                  | None \<Rightarrow> [poison_line s])))
              requested written"
proof -
  let ?U = "\<Union>v' \<in> set requested. set (map fst (table v'))"
  let ?h = "\<lambda>v. generate_header_string (table v) (?U - set (map fst (table v)))"
  let ?g = "\<lambda>v. (''/force_link_glibc_'' @ version_as_str v @ ''.h'', ?h v)"
  have fin: "finite ?U" by simp
  have m: "main extract requested = Inr (map ?g requested)"
    by (rule main_writes[OF assms(1)])
  have each: "count_list (sort (map fst (table v)) @ sorted_list_of_set (?U - set (map fst (table v)))) s = 1
      \<and> ((map_of (table v) s = None) = (s \<in> ?U - set (map fst (table v))))
      \<and> ((\<forall>v' \<in> set requested. clean_table (table v')) \<longrightarrow>
            binding_lines s (?h v)
              = (case map_of (table v) s of Some ver \<Rightarrow> [symver_line s ver]
                                          | None \<Rightarrow> [poison_line s]))"
    if v: "v \<in> set requested" for v
  proof (intro conjI impI)
    from assms(2) v have dist: "distinct (map fst (table v))" by (rule bspec)
    show "count_list (sort (map fst (table v)) @ sorted_list_of_set (?U - set (map fst (table v)))) s = 1"
      by (rule bound_once(1)[OF dist fin assms(3)])
    show "(map_of (table v) s = None) = (s \<in> ?U - set (map fst (table v)))"
      by (rule bound_once(2)[OF dist fin assms(3)])
    assume ca: "\<forall>v' \<in> set requested. clean_table (table v')"
    from ca v have ct: "clean_table (table v)" by (rule bspec)
    have cu: "\<forall>x \<in> ?U. clean_name x"
    proof
      fix x assume "x \<in> ?U"
      then obtain v' where v': "v' \<in> set requested" and x: "x \<in> set (map fst (table v'))"
        by blast
      from ca v' have "clean_table (table v')" by (rule bspec)
      then show "clean_name x" using x by (rule clean_table_key)
    qed
    show "binding_lines s (?h v)
              = (case map_of (table v) s of Some ver \<Rightarrow> [symver_line s ver]
                                          | None \<Rightarrow> [poison_line s])"
      by (rule binding_lines_once[OF dist ct fin cu assms(3)])
  qed
  have "list_all2 (\<lambda>v (fname, content).
                fname = ''/force_link_glibc_'' @ version_as_str v @ ''.h''
              \<and> content = ?h v
              \<and> count_list (sort (map fst (table v))
                    @ sorted_list_of_set (?U - set (map fst (table v)))) s = 1
              \<and> ((map_of (table v) s = None) = (s \<in> ?U - set (map fst (table v))))
              \<and> ((\<forall>v' \<in> set requested. clean_table (table v')) \<longrightarrow>
                    binding_lines s content
                      = (case map_of (table v) s of Some ver \<Rightarrow> [symver_line s ver]
                                                  | None \<Rightarrow> [poison_line s])))
              requested (map ?g requested)"
    unfolding list_all2_map2 using each by (intro list_all2_all_nthI) (simp_all)
  with m show ?thesis by blast
qed

text \<open>
  The tables \<open>1.0 = {read@@GLIBC_1.0}\<close> and \<open>2.0 = {read@@GLIBC_2.0, write@@GLIBC_2.0}\<close>:
  the header that \<^verbatim>\<open>main\<close> writes for 1.0 has the poison binding of \<open>write\<close> as its
  only binding line for \<open>write\<close>, the header of 2.0 the pinned binding at \<open>GLIBC_2.0\<close>.
\<close>

theorem every_symbol_bound_exactly_once_witness:
  "main (\<lambda>v. Inr (if v = Version2 1 0 then [(''read'', ''GLIBC_1.0'')]
                   else [(''read'', ''GLIBC_2.0''), (''write'', ''GLIBC_2.0'')]))
        [Version2 1 0, Version2 2 0]
     = Inr [(''/force_link_glibc_1.0.h'',
             generate_header_string [(''read'', ''GLIBC_1.0'')] {''write''}),
            (''/force_link_glibc_2.0.h'',
             generate_header_string [(''read'', ''GLIBC_2.0''), (''write'', ''GLIBC_2.0'')] {})]
   \<and> binding_lines ''write'' (generate_header_string [(''read'', ''GLIBC_1.0'')] {''write''})
       = [''__asm__(\".symver write,write@GLIBC_WRAP_ERROR_SYMBOL_NOT_PRESENT_IN_REQUESTED_VERSION\");'']
   \<and> binding_lines ''write''
         (generate_header_string [(''read'', ''GLIBC_2.0''), (''write'', ''GLIBC_2.0'')] {})
       = [''__asm__(\".symver write,write@GLIBC_2.0\");'']"
proof -
  let ?t1 = "[(''read'', ''GLIBC_1.0'')]"
  let ?t2 = "[(''read'', ''GLIBC_2.0''), (''write'', ''GLIBC_2.0'')]"
  let ?table = "\<lambda>v. if v = Version2 1 0 then ?t1 else ?t2"
  let ?req = "[Version2 1 0, Version2 2 0]"
  have ne: "Version2 1 0 \<noteq> Version2 2 0" "Version2 2 0 \<noteq> Version2 1 0"
    by (simp_all add: Version2_def)
  have h: "\<forall>v \<in> set ?req. (\<lambda>v. Inr (?table v) :: error + symtab) v = Inr (?table v)"
    by simp
  have d: "\<forall>v \<in> set ?req. distinct (map fst (?table v))"
    by simp
  have u: "(\<Union>v' \<in> set ?req. set (map fst (?table v'))) = {''read'', ''write''}"
    using ne by auto
  have s: "''write'' \<in> (\<Union>v' \<in> set ?req. set (map fst (?table v')))"
    unfolding u by simp
  have c: "\<forall>v' \<in> set ?req. clean_table (?table v')"
    by (simp add: clean_table_def clean_name_def)
  have m1: "{''read'', ''write''} - set (map fst ?t1) = {''write''}"
    by auto
  have m2: "{''read'', ''write''} - set (map fst ?t2) = {}"
    by auto
  have p: "poison_line ''write''
     = ''__asm__(\".symver write,write@GLIBC_WRAP_ERROR_SYMBOL_NOT_PRESENT_IN_REQUESTED_VERSION\");''"
    by (simp add: poison_line_def)
  have sv: "symver_line ''write'' ''GLIBC_2.0'' = ''__asm__(\".symver write,write@GLIBC_2.0\");''"
    by (simp add: symver_line_def)
  have s1: "version_as_str (Version2 1 0) = ''1.0''"
    by code_simp
  have s2: "version_as_str (Version2 2 0) = ''2.0''"
    by code_simp
  from every_symbol_bound_exactly_once [of ?req "\<lambda>v. Inr (?table v)" ?table "''write''", OF h d s]
  obtain written where w: "main (\<lambda>v. Inr (?table v)) ?req = Inr written"
    and l: "list_all2 (\<lambda>v (fname, content).
                fname = ''/force_link_glibc_'' @ version_as_str v @ ''.h''
              \<and> content = generate_header_string (?table v)
                  ((\<Union>v' \<in> set ?req. set (map fst (?table v'))) - set (map fst (?table v)))
              \<and> count_list (sort (map fst (?table v))
                    @ sorted_list_of_set ((\<Union>v' \<in> set ?req. set (map fst (?table v')))
                                            - set (map fst (?table v)))) ''write'' = 1
              \<and> ((map_of (?table v) ''write'' = None)
                  = (''write'' \<in> (\<Union>v' \<in> set ?req. set (map fst (?table v')))
                           - set (map fst (?table v))))
              \<and> ((\<forall>v' \<in> set ?req. clean_table (?table v')) \<longrightarrow>
                    binding_lines ''write'' content
                      = (case map_of (?table v) ''write'' of Some ver \<Rightarrow> [symver_line ''write'' ver]
                                                  | None \<Rightarrow> [poison_line ''write''])))
              ?req written"
    by blast
  from l obtain f1 c1 f2 c2 where wr: "written = [(f1, c1), (f2, c2)]"
    by (auto simp: list_all2_Cons1)
  from l c have e:
    "f1 = ''/force_link_glibc_1.0.h'' \<and> c1 = generate_header_string ?t1 {''write''}
     \<and> binding_lines ''write'' c1 = [poison_line ''write'']
     \<and> f2 = ''/force_link_glibc_2.0.h'' \<and> c2 = generate_header_string ?t2 {}
     \<and> binding_lines ''write'' c2 = [symver_line ''write'' ''GLIBC_2.0'']"
    unfolding wr u by (auto simp add: ne m1 m2 s1 s2)
  then have f1: "f1 = ''/force_link_glibc_1.0.h''"
    and c1: "c1 = generate_header_string ?t1 {''write''}"
    and b1: "binding_lines ''write'' c1 = [poison_line ''write'']"
    and f2: "f2 = ''/force_link_glibc_2.0.h''"
    and c2: "c2 = generate_header_string ?t2 {}"
    and b2: "binding_lines ''write'' c2 = [symver_line ''write'' ''GLIBC_2.0'']"
    by blast+
  from w have "main (\<lambda>v. Inr (?table v)) ?req
     = Inr [(''/force_link_glibc_1.0.h'', generate_header_string ?t1 {''write''}),
            (''/force_link_glibc_2.0.h'', generate_header_string ?t2 {})]"
    unfolding wr f1 f2 c1 c2 .
  moreover from b1 have "binding_lines ''write'' (generate_header_string ?t1 {''write''})
       = [''__asm__(\".symver write,write@GLIBC_WRAP_ERROR_SYMBOL_NOT_PRESENT_IN_REQUESTED_VERSION\");'']"
    unfolding c1 p .
  moreover from b2 have "binding_lines ''write'' (generate_header_string ?t2 {})
       = [''__asm__(\".symver write,write@GLIBC_2.0\");'']"
    unfolding c2 sv .
  ultimately show ?thesis
    by (intro conjI)
qed

section \<open>Guards around the binding lines of a header\<close>

lemma pinned_entry_join:
  "pinned_entry syms symb =
     join ''\<newline>''
       (guards_for pthread_funcs_in_libc_so pthread_symbols_used_as_weak_in_libgcc
          pthread_symbols_used_as_weak_in_libstdcpp symb
        @ [symver_line symb (the (map_of syms symb))]
        @ replicate (length (guards_for pthread_funcs_in_libc_so
             pthread_symbols_used_as_weak_in_libgcc
             pthread_symbols_used_as_weak_in_libstdcpp symb)) ''#endif'')"
  by (simp only: pinned_entry_def guard_line_join)

lemma lines_pinned_entry:
  assumes "clean_table syms" "symb \<in> set (map fst syms)"
  shows "split_str ''\<newline>'' (pinned_entry syms symb) =
     guards_for pthread_funcs_in_libc_so pthread_symbols_used_as_weak_in_libgcc
          pthread_symbols_used_as_weak_in_libstdcpp symb
        @ [symver_line symb (the (map_of syms symb))]
        @ replicate (length (guards_for pthread_funcs_in_libc_so
             pthread_symbols_used_as_weak_in_libgcc
             pthread_symbols_used_as_weak_in_libstdcpp symb)) ''#endif''"
proof -
  from assms(2) have "map_of syms symb \<noteq> None"
    by (simp add: map_of_eq_None_iff)
  then obtain v where v: "map_of syms symb = Some v" by blast
  then have "(symb, v) \<in> set syms" by (rule map_of_SomeD)
  from clean_table_entry[OF assms(1) this]
  have "CHR ''\<newline>'' \<notin> set (symver_line symb v)"
    by (simp add: symver_line_clean clean_name_def)
  then show ?thesis
    unfolding pinned_entry_def v option.sel by (rule lines_guard_line)
qed

text \<open>
  Claim C6, as the code has it. In the header, the entry of every key of the table is
  its \<^verbatim>\<open>.symver\<close> line wrapped in the guards of the key, outermost first:
  \<^verbatim>\<open>#ifndef _GLIBCXX_SHARED\<close> for a member of the libstdc++ weak-use set,
  \<^verbatim>\<open>#ifndef IN_LIBGCC2\<close> for a member of the libgcc weak-use set, and
  \<^verbatim>\<open>#ifdef _REENTRANT\<close> for a member of the libc pthread set or of either weak-use
  set; each guard is closed by its own \<^verbatim>\<open>#endif\<close> after the line. A key in all three
  sets has three nested guards and a key in none has no guard. The poison line of a
  missing symbol is emitted bare, whatever sets the symbol is a member of. When names and
  versions hold no line break, the lines of the header text are the two opening lines,
  then for every key in sorted order its guards, its binding line and one \<^verbatim>\<open>#endif\<close>
  per guard, then the poison lines, then the closing \<^verbatim>\<open>#endif\<close>.
\<close>

theorem guards_compose:
  "guard_line libc libgcc libstdcpp symb line0 =
     join ''\<newline>'' (guards_for libc libgcc libstdcpp symb @ [line0]
        @ replicate (length (guards_for libc libgcc libstdcpp symb)) ''#endif'')
   \<and> (''#ifdef _REENTRANT'' \<in> set (guards_for libc libgcc libstdcpp symb)
        \<longleftrightarrow> symb \<in> set libc \<or> symb \<in> set libgcc \<or> symb \<in> set libstdcpp)
   \<and> (''#ifndef IN_LIBGCC2'' \<in> set (guards_for libc libgcc libstdcpp symb)
        \<longleftrightarrow> symb \<in> set libgcc)
   \<and> (''#ifndef _GLIBCXX_SHARED'' \<in> set (guards_for libc libgcc libstdcpp symb)
        \<longleftrightarrow> symb \<in> set libstdcpp)
   \<and> (symb \<in> set libc \<and> symb \<in> set libgcc \<and> symb \<in> set libstdcpp \<longrightarrow>
        guard_line libc libgcc libstdcpp symb line0 =
          ''#ifndef _GLIBCXX_SHARED\<newline>#ifndef IN_LIBGCC2\<newline>#ifdef _REENTRANT\<newline>''
          @ line0 @ ''\<newline>#endif\<newline>#endif\<newline>#endif'')
   \<and> (symb \<in> set libc \<and> symb \<notin> set libgcc \<and> symb \<notin> set libstdcpp \<longrightarrow>
        guard_line libc libgcc libstdcpp symb line0 =
          ''#ifdef _REENTRANT\<newline>'' @ line0 @ ''\<newline>#endif'')
   \<and> (symb \<in> set libgcc \<and> symb \<notin> set libstdcpp \<longrightarrow>
        guard_line libc libgcc libstdcpp symb line0 =
          ''#ifndef IN_LIBGCC2\<newline>#ifdef _REENTRANT\<newline>'' @ line0 @ ''\<newline>#endif\<newline>#endif'')
   \<and> (symb \<notin> set libgcc \<and> symb \<in> set libstdcpp \<longrightarrow>
        guard_line libc libgcc libstdcpp symb line0 =
          ''#ifndef _GLIBCXX_SHARED\<newline>#ifdef _REENTRANT\<newline>'' @ line0 @ ''\<newline>#endif\<newline>#endif'')
   \<and> (symb \<notin> set libc \<and> symb \<notin> set libgcc \<and> symb \<notin> set libstdcpp \<longrightarrow>
        guard_line libc libgcc libstdcpp symb line0 = line0)
   \<and> pinned_entry syms symb =
        guard_line pthread_funcs_in_libc_so pthread_symbols_used_as_weak_in_libgcc
          pthread_symbols_used_as_weak_in_libstdcpp symb (symver_line symb (the (map_of syms symb)))
   \<and> generate_header_string syms m = join ''\<newline>'' (header_strings syms m)
   \<and> header_strings syms m =
       [''#if !defined(SET_GLIBC_LINK_VERSIONS_HEADER) && !defined(__ASSEMBLER__)'',
        ''#define SET_GLIBC_LINK_VERSIONS_HEADER'']
       @ map (\<lambda>s. join ''\<newline>''
               (guards_for pthread_funcs_in_libc_so pthread_symbols_used_as_weak_in_libgcc
                  pthread_symbols_used_as_weak_in_libstdcpp s
                @ [symver_line s (the (map_of syms s))]
                @ replicate (length (guards_for pthread_funcs_in_libc_so
                     pthread_symbols_used_as_weak_in_libgcc
                     pthread_symbols_used_as_weak_in_libstdcpp s)) ''#endif''))
             (sort (map fst syms))
       @ map poison_line (sorted_list_of_set m)
       @ [''#endif'', '''']
   \<and> (clean_table syms \<and> finite m \<and> (\<forall>x \<in> m. clean_name x) \<longrightarrow>
        split_str ''\<newline>'' (generate_header_string syms m) =
          [''#if !defined(SET_GLIBC_LINK_VERSIONS_HEADER) && !defined(__ASSEMBLER__)'',
           ''#define SET_GLIBC_LINK_VERSIONS_HEADER'']
          @ concat (map (\<lambda>s.
               guards_for pthread_funcs_in_libc_so pthread_symbols_used_as_weak_in_libgcc
                  pthread_symbols_used_as_weak_in_libstdcpp s
               @ [symver_line s (the (map_of syms s))]
               @ replicate (length (guards_for pthread_funcs_in_libc_so
                    pthread_symbols_used_as_weak_in_libgcc
                    pthread_symbols_used_as_weak_in_libstdcpp s)) ''#endif'')
             (sort (map fst syms)))
          @ map poison_line (sorted_list_of_set m)
          @ [''#endif'', ''''])
   \<and> generate_header_string
        [(''read'', ''GLIBC_2.2.5''), (''pthread_once'', ''GLIBC_2.2.5''),
         (''pthread_create'', ''GLIBC_2.2.5''), (''pthread_self'', ''GLIBC_2.2.5'')] {} =
       ''#if !defined(SET_GLIBC_LINK_VERSIONS_HEADER) && !defined(__ASSEMBLER__)\<newline>'' @
       ''#define SET_GLIBC_LINK_VERSIONS_HEADER\<newline>'' @
       ''#ifndef _GLIBCXX_SHARED\<newline>#ifdef _REENTRANT\<newline>'' @
       ''__asm__(\".symver pthread_create,pthread_create@GLIBC_2.2.5\");\<newline>'' @
       ''#endif\<newline>#endif\<newline>'' @
       ''#ifndef _GLIBCXX_SHARED\<newline>#ifndef IN_LIBGCC2\<newline>#ifdef _REENTRANT\<newline>'' @
       ''__asm__(\".symver pthread_once,pthread_once@GLIBC_2.2.5\");\<newline>'' @
       ''#endif\<newline>#endif\<newline>#endif\<newline>'' @
       ''#ifdef _REENTRANT\<newline>'' @
       ''__asm__(\".symver pthread_self,pthread_self@GLIBC_2.2.5\");\<newline>'' @
       ''#endif\<newline>'' @
       ''__asm__(\".symver read,read@GLIBC_2.2.5\");\<newline>'' @
       ''#endif\<newline>''"
proof (intro conjI)
  show "guard_line libc libgcc libstdcpp symb line0 =
     join ''\<newline>'' (guards_for libc libgcc libstdcpp symb @ [line0]
        @ replicate (length (guards_for libc libgcc libstdcpp symb)) ''#endif'')"
    by (rule guard_line_join)
  show "''#ifdef _REENTRANT'' \<in> set (guards_for libc libgcc libstdcpp symb)
        \<longleftrightarrow> symb \<in> set libc \<or> symb \<in> set libgcc \<or> symb \<in> set libstdcpp"
    by (simp add: guards_for_def)
  show "''#ifndef IN_LIBGCC2'' \<in> set (guards_for libc libgcc libstdcpp symb)
        \<longleftrightarrow> symb \<in> set libgcc"
    by (simp add: guards_for_def)
  show "''#ifndef _GLIBCXX_SHARED'' \<in> set (guards_for libc libgcc libstdcpp symb)
        \<longleftrightarrow> symb \<in> set libstdcpp"
    by (simp add: guards_for_def)
  show "symb \<in> set libc \<and> symb \<in> set libgcc \<and> symb \<in> set libstdcpp \<longrightarrow>
        guard_line libc libgcc libstdcpp symb line0 =
          ''#ifndef _GLIBCXX_SHARED\<newline>#ifndef IN_LIBGCC2\<newline>#ifdef _REENTRANT\<newline>''
          @ line0 @ ''\<newline>#endif\<newline>#endif\<newline>#endif''"
    by (simp add: guard_line_def)
  show "symb \<in> set libc \<and> symb \<notin> set libgcc \<and> symb \<notin> set libstdcpp \<longrightarrow>
        guard_line libc libgcc libstdcpp symb line0 =
          ''#ifdef _REENTRANT\<newline>'' @ line0 @ ''\<newline>#endif''"
    by (simp add: guard_line_def)
  show "symb \<in> set libgcc \<and> symb \<notin> set libstdcpp \<longrightarrow>
        guard_line libc libgcc libstdcpp symb line0 =
          ''#ifndef IN_LIBGCC2\<newline>#ifdef _REENTRANT\<newline>'' @ line0 @ ''\<newline>#endif\<newline>#endif''"
    by (simp add: guard_line_def)
  show "symb \<notin> set libgcc \<and> symb \<in> set libstdcpp \<longrightarrow>
        guard_line libc libgcc libstdcpp symb line0 =
          ''#ifndef _GLIBCXX_SHARED\<newline>#ifdef _REENTRANT\<newline>'' @ line0 @ ''\<newline>#endif\<newline>#endif''"
    by (simp add: guard_line_def)
  show "symb \<notin> set libc \<and> symb \<notin> set libgcc \<and> symb \<notin> set libstdcpp \<longrightarrow>
        guard_line libc libgcc libstdcpp symb line0 = line0"
    by (simp add: guard_line_def)
  show "pinned_entry syms symb =
        guard_line pthread_funcs_in_libc_so pthread_symbols_used_as_weak_in_libgcc
          pthread_symbols_used_as_weak_in_libstdcpp symb (symver_line symb (the (map_of syms symb)))"
    by (simp add: pinned_entry_def)
  show "generate_header_string syms m = join ''\<newline>'' (header_strings syms m)"
    by (simp add: generate_header_string_def)
  show "header_strings syms m =
       [''#if !defined(SET_GLIBC_LINK_VERSIONS_HEADER) && !defined(__ASSEMBLER__)'',
        ''#define SET_GLIBC_LINK_VERSIONS_HEADER'']
       @ map (\<lambda>s. join ''\<newline>''
               (guards_for pthread_funcs_in_libc_so pthread_symbols_used_as_weak_in_libgcc
                  pthread_symbols_used_as_weak_in_libstdcpp s
                @ [symver_line s (the (map_of syms s))]
                @ replicate (length (guards_for pthread_funcs_in_libc_so
                     pthread_symbols_used_as_weak_in_libgcc
                     pthread_symbols_used_as_weak_in_libstdcpp s)) ''#endif''))
             (sort (map fst syms))
       @ map poison_line (sorted_list_of_set m)
       @ [''#endif'', '''']"
    unfolding header_strings_def pinned_entry_join[symmetric] ..
  show "clean_table syms \<and> finite m \<and> (\<forall>x \<in> m. clean_name x) \<longrightarrow>
        split_str ''\<newline>'' (generate_header_string syms m) =
          [''#if !defined(SET_GLIBC_LINK_VERSIONS_HEADER) && !defined(__ASSEMBLER__)'',
           ''#define SET_GLIBC_LINK_VERSIONS_HEADER'']
          @ concat (map (\<lambda>s.
               guards_for pthread_funcs_in_libc_so pthread_symbols_used_as_weak_in_libgcc
                  pthread_symbols_used_as_weak_in_libstdcpp s
               @ [symver_line s (the (map_of syms s))]
               @ replicate (length (guards_for pthread_funcs_in_libc_so
                    pthread_symbols_used_as_weak_in_libgcc
                    pthread_symbols_used_as_weak_in_libstdcpp s)) ''#endif'')
             (sort (map fst syms)))
          @ map poison_line (sorted_list_of_set m)
          @ [''#endif'', '''']"
  proof (intro impI, elim conjE)
    assume ct: "clean_table syms" and fin: "finite m" and cm: "\<forall>x \<in> m. clean_name x"
    have "map (\<lambda>s. split_str ''\<newline>'' (pinned_entry syms s)) (sort (map fst syms))
          = map (\<lambda>s.
               guards_for pthread_funcs_in_libc_so pthread_symbols_used_as_weak_in_libgcc
                  pthread_symbols_used_as_weak_in_libstdcpp s
               @ [symver_line s (the (map_of syms s))]
               @ replicate (length (guards_for pthread_funcs_in_libc_so
                    pthread_symbols_used_as_weak_in_libgcc
                    pthread_symbols_used_as_weak_in_libstdcpp s)) ''#endif'')
             (sort (map fst syms))"
    proof (rule map_cong[OF refl])
      fix s assume "s \<in> set (sort (map fst syms))"
      then have "s \<in> set (map fst syms)" by simp
      then show "split_str ''\<newline>'' (pinned_entry syms s) =
               guards_for pthread_funcs_in_libc_so pthread_symbols_used_as_weak_in_libgcc
                  pthread_symbols_used_as_weak_in_libstdcpp s
               @ [symver_line s (the (map_of syms s))]
               @ replicate (length (guards_for pthread_funcs_in_libc_so
                    pthread_symbols_used_as_weak_in_libgcc
                    pthread_symbols_used_as_weak_in_libstdcpp s)) ''#endif''"
        by (rule lines_pinned_entry[OF ct])
    qed
    then show "split_str ''\<newline>'' (generate_header_string syms m) =
          [''#if !defined(SET_GLIBC_LINK_VERSIONS_HEADER) && !defined(__ASSEMBLER__)'',
           ''#define SET_GLIBC_LINK_VERSIONS_HEADER'']
          @ concat (map (\<lambda>s.
               guards_for pthread_funcs_in_libc_so pthread_symbols_used_as_weak_in_libgcc
                  pthread_symbols_used_as_weak_in_libstdcpp s
               @ [symver_line s (the (map_of syms s))]
               @ replicate (length (guards_for pthread_funcs_in_libc_so
                    pthread_symbols_used_as_weak_in_libgcc
                    pthread_symbols_used_as_weak_in_libstdcpp s)) ''#endif'')
             (sort (map fst syms)))
          @ map poison_line (sorted_list_of_set m)
          @ [''#endif'', '''']"
      unfolding lines_header[OF ct fin cm] by (simp only:)
  qed
  show "generate_header_string
        [(''read'', ''GLIBC_2.2.5''), (''pthread_once'', ''GLIBC_2.2.5''),
         (''pthread_create'', ''GLIBC_2.2.5''), (''pthread_self'', ''GLIBC_2.2.5'')] {} =
       ''#if !defined(SET_GLIBC_LINK_VERSIONS_HEADER) && !defined(__ASSEMBLER__)\<newline>'' @
       ''#define SET_GLIBC_LINK_VERSIONS_HEADER\<newline>'' @
       ''#ifndef _GLIBCXX_SHARED\<newline>#ifdef _REENTRANT\<newline>'' @
       ''__asm__(\".symver pthread_create,pthread_create@GLIBC_2.2.5\");\<newline>'' @
       ''#endif\<newline>#endif\<newline>'' @
       ''#ifndef _GLIBCXX_SHARED\<newline>#ifndef IN_LIBGCC2\<newline>#ifdef _REENTRANT\<newline>'' @
       ''__asm__(\".symver pthread_once,pthread_once@GLIBC_2.2.5\");\<newline>'' @
       ''#endif\<newline>#endif\<newline>#endif\<newline>'' @
       ''#ifdef _REENTRANT\<newline>'' @
       ''__asm__(\".symver pthread_self,pthread_self@GLIBC_2.2.5\");\<newline>'' @
       ''#endif\<newline>'' @
       ''__asm__(\".symver read,read@GLIBC_2.2.5\");\<newline>'' @
       ''#endif\<newline>''"
  proof -
    have k: "sort (map fst [(''read'', ''GLIBC_2.2.5''), (''pthread_once'', ''GLIBC_2.2.5''),
         (''pthread_create'', ''GLIBC_2.2.5''), (''pthread_self'', ''GLIBC_2.2.5'')])
        = [''pthread_create'', ''pthread_once'', ''pthread_self'', ''read'']"
      by code_simp
    show ?thesis
      unfolding generate_header_string_def header_strings_def k
      by (simp add: pinned_entry_def guard_line_def symver_line_def membership_sets_defs)
  qed
qed

theorem guards_compose_witness:
  "''f'' \<in> set [''f'']
   \<and> guard_line [''f''] [''f''] [''f''] ''f'' ''L'' =
       ''#ifndef _GLIBCXX_SHARED\<newline>#ifndef IN_LIBGCC2\<newline>#ifdef _REENTRANT\<newline>'' @ ''L'' @
       ''\<newline>#endif\<newline>#endif\<newline>#endif''
   \<and> ''read'' \<notin> set [''f''] \<and> ''read'' \<notin> set [''h''] \<and> ''read'' \<notin> set [''g'']
   \<and> guard_line [''f''] [''h''] [''g''] ''read'' ''L'' = ''L''
   \<and> clean_table [(''read'', ''GLIBC_2.2.5''), (''pthread_once'', ''GLIBC_2.2.5'')]
   \<and> split_str ''\<newline>''
        (generate_header_string [(''read'', ''GLIBC_2.2.5''), (''pthread_once'', ''GLIBC_2.2.5'')] {})
       = [''#if !defined(SET_GLIBC_LINK_VERSIONS_HEADER) && !defined(__ASSEMBLER__)'',
          ''#define SET_GLIBC_LINK_VERSIONS_HEADER'',
          ''#ifndef _GLIBCXX_SHARED'', ''#ifndef IN_LIBGCC2'', ''#ifdef _REENTRANT'',
          ''__asm__(\".symver pthread_once,pthread_once@GLIBC_2.2.5\");'',
          ''#endif'', ''#endif'', ''#endif'',
          ''__asm__(\".symver read,read@GLIBC_2.2.5\");'',
          ''#endif'', '''']"
proof -
  let ?t = "[(''read'', ''GLIBC_2.2.5''), (''pthread_once'', ''GLIBC_2.2.5'')]"
  have m: "''f'' \<in> set [''f''] \<and> ''f'' \<in> set [''f''] \<and> ''f'' \<in> set [''f'']"
    by simp
  have n: "''read'' \<notin> set [''f''] \<and> ''read'' \<notin> set [''h''] \<and> ''read'' \<notin> set [''g'']"
    by simp
  have c: "clean_table ?t \<and> finite ({} :: string set) \<and> (\<forall>x \<in> {}. clean_name x)"
    by (simp add: clean_table_def clean_name_def)
  have k: "sort (map fst ?t) = [''pthread_once'', ''read'']"
    by code_simp
  note all3 = guards_compose [of "[''f'']" "[''f'']" "[''f'']" "''f''" "''L''" "[]" "{}",
      THEN conjunct2, THEN conjunct2, THEN conjunct2, THEN conjunct2, THEN conjunct1, THEN mp, OF m]
  note none = guards_compose [of "[''f'']" "[''h'']" "[''g'']" "''read''" "''L''" "[]" "{}",
      THEN conjunct2, THEN conjunct2, THEN conjunct2, THEN conjunct2, THEN conjunct2,
      THEN conjunct2, THEN conjunct2, THEN conjunct2, THEN conjunct1, THEN mp, OF n]
  note lines = guards_compose [of "[]" "[]" "[]" "[]" "[]" ?t "{}",
      THEN conjunct2, THEN conjunct2, THEN conjunct2, THEN conjunct2, THEN conjunct2,
      THEN conjunct2, THEN conjunct2, THEN conjunct2, THEN conjunct2, THEN conjunct2,
      THEN conjunct2, THEN conjunct2, THEN conjunct1, THEN mp, OF c]
  have l: "split_str ''\<newline>'' (generate_header_string ?t {})
       = [''#if !defined(SET_GLIBC_LINK_VERSIONS_HEADER) && !defined(__ASSEMBLER__)'',
          ''#define SET_GLIBC_LINK_VERSIONS_HEADER'',
          ''#ifndef _GLIBCXX_SHARED'', ''#ifndef IN_LIBGCC2'', ''#ifdef _REENTRANT'',
          ''__asm__(\".symver pthread_once,pthread_once@GLIBC_2.2.5\");'',
          ''#endif'', ''#endif'', ''#endif'',
          ''__asm__(\".symver read,read@GLIBC_2.2.5\");'',
          ''#endif'', '''']"
    unfolding lines k
    by (simp add: guards_for_def symver_line_def membership_sets_defs)
  from all3 none l c show ?thesis
    by simp
qed

text \<open>
  The poison line of a missing symbol has no guard: \<open>pthread_once\<close> is in both weak-use
  sets, and the header of an empty table in which it is missing binds it bare.
\<close>

theorem poison_binding_is_unguarded:
  "generate_header_string [] {''pthread_once''} =
     ''#if !defined(SET_GLIBC_LINK_VERSIONS_HEADER) && !defined(__ASSEMBLER__)\<newline>'' @
     ''#define SET_GLIBC_LINK_VERSIONS_HEADER\<newline>'' @
     ''__asm__(\".symver pthread_once,pthread_once@GLIBC_WRAP_ERROR_SYMBOL_NOT_PRESENT_IN_REQUESTED_VERSION\");\<newline>'' @
     ''#endif\<newline>''
   \<and> ''pthread_once'' \<in> set pthread_symbols_used_as_weak_in_libgcc
   \<and> ''pthread_once'' \<in> set pthread_symbols_used_as_weak_in_libstdcpp
   \<and> pinned_entry [(''pthread_once'', ''GLIBC_2.2.5'')] ''pthread_once'' =
        ''#ifndef _GLIBCXX_SHARED\<newline>#ifndef IN_LIBGCC2\<newline>#ifdef _REENTRANT\<newline>'' @
        ''__asm__(\".symver pthread_once,pthread_once@GLIBC_2.2.5\");'' @
        ''\<newline>#endif\<newline>#endif\<newline>#endif''"
  by (simp add: generate_header_string_def header_strings_def poison_line_def
      pinned_entry_def guard_line_def symver_line_def membership_sets_defs)

end
